theory Spec2Isabelle
  imports Complex_Main "HOL-Library.Log_Nat"
begin

section \<open>Values, errors and the random source\<close>

text \<open>
  The program is \<^verbatim>\<open>src/main.py\<close>. A configuration file is a JSON object whose values
  are integers or lists of strings (\<^verbatim>\<open>dict[str, int | list[str]]\<close>).
\<close>

datatype cfg_value = IntV int | ListV "string list"

type_synonym dict = "string \<rightharpoonup> cfg_value"

text \<open>The exceptions that the modelled code paths can raise.\<close>

datatype error =
  ZeroDivisionError | OverflowError | TypeError | IndexError | KeyError | JSONDecodeError
  | OSError

text \<open>
  The random source of \<^verbatim>\<open>random.choice\<close>: an infinite sequence of draws. One call
  consumes the first draw; reducing it modulo the length of the sequence reaches every
  index, so every outcome of \<^verbatim>\<open>choice\<close> is the outcome of some source.
\<close>

type_synonym rng = "nat \<Rightarrow> nat"

definition next_rng :: "rng \<Rightarrow> rng" where
  "next_rng g = (\<lambda>i. g (Suc i))"

text \<open>\<^verbatim>\<open>choice(seq)\<close>: IndexError on an empty sequence, TypeError on an integer.\<close>

fun choice :: "rng \<Rightarrow> cfg_value \<Rightarrow> error + (string \<times> rng)" where
  "choice g (ListV xs) =
     (if xs = [] then Inl IndexError
      else Inr (xs ! (g 0 mod length xs), next_rng g))"
| "choice g (IntV n) = Inl TypeError"

section \<open>Division and rounding\<close>

text \<open>\<^verbatim>\<open>round(x)\<close> with one argument: the nearest integer, a tie going to the even one.\<close>

definition py_round :: "rat \<Rightarrow> int" where
  "py_round x =
     (let f = \<lfloor>x\<rfloor>; d = x - of_int f in
      if d < 1 / 2 then f
      else if 1 / 2 < d then f + 1
      else if even f then f else f + 1)"

text \<open>
  The quotient of two integers is a float: the binary64 number nearest to the exact
  quotient, a tie going to the even significand. The parameters of the format are those
  of C's \<^verbatim>\<open>float.h\<close>.
\<close>

definition DBL_MANT_DIG :: int where
  "DBL_MANT_DIG = 53"

definition DBL_MIN_EXP :: int where
  "DBL_MIN_EXP = - 1021"

definition DBL_MAX_EXP :: int where
  "DBL_MAX_EXP = 1024"

text \<open>
  For positive \<open>a\<close> and \<open>b\<close>, the exponent \<open>e\<close> with \<open>2\<^sup>e \<le> a / b < 2\<^sup>e\<^sup>+\<^sup>1\<close>: the
  difference of the bit lengths, or one less.
\<close>

definition binade :: "int \<Rightarrow> int \<Rightarrow> int" where
  "binade a b =
     (let d = bitlen a - bitlen b
      in if 2 powi d \<le> (of_int a / of_int b :: rat) then d else d - 1)"

text \<open>
  The spacing of the floats around \<open>a / b\<close>: 53 significant bits from the exponent
  down, and never finer than the spacing of the subnormal numbers.
\<close>

definition ulp :: "int \<Rightarrow> int \<Rightarrow> rat" where
  "ulp a b = 2 powi (max (binade a b) (DBL_MIN_EXP - 1) - (DBL_MANT_DIG - 1))"

text \<open>The float nearest to \<open>a / b\<close>, for \<open>a \<ge> 0\<close> and \<open>b > 0\<close>.\<close>

definition nearest_double :: "int \<Rightarrow> int \<Rightarrow> rat" where
  "nearest_double a b =
     (if a = 0 then 0
      else of_int (py_round (of_int a / of_int b / ulp a b)) * ulp a b)"

text \<open>
  \<^verbatim>\<open>a / b\<close> on integers: ZeroDivisionError for a zero divisor, OverflowError when the
  rounded quotient is beyond the largest float, otherwise the rounded quotient with the
  sign of the operands.
\<close>

definition int_true_div :: "int \<Rightarrow> int \<Rightarrow> error + rat" where
  "int_true_div a b =
     (if b = 0 then Inl ZeroDivisionError
      else let q = nearest_double \<bar>a\<bar> \<bar>b\<bar>
           in if 2 powi DBL_MAX_EXP \<le> q then Inl OverflowError
              else Inr (of_int (sgn a * sgn b) * q))"

text \<open>
  \<^verbatim>\<open>a / b\<close> on configuration values: a list as either operand is a TypeError, whatever
  the other operand is.
\<close>

fun true_div :: "cfg_value \<Rightarrow> cfg_value \<Rightarrow> error + rat" where
  "true_div (IntV a) (IntV b) = int_true_div a b"
| "true_div (ListV xs) y = Inl TypeError"
| "true_div x (ListV ys) = Inl TypeError"

section \<open>Pattern generation\<close>

text \<open>
  \<^verbatim>\<open>[choice(colours) for _ in range(width)]\<close>, the inner comprehension of
  \<^verbatim>\<open>Main.__gen_pattern\<close>, as a recursion on the number of cells left.
\<close>

fun gen_row :: "rng \<Rightarrow> nat \<Rightarrow> cfg_value \<Rightarrow> error + (string list \<times> rng)" where
  "gen_row g 0 colours = Inr ([], g)"
| "gen_row g (Suc n) colours =
     (case choice g colours of
        Inl e \<Rightarrow> Inl e
      | Inr (c, g') \<Rightarrow>
          (case gen_row g' n colours of
             Inl e \<Rightarrow> Inl e
           | Inr (cs, g'') \<Rightarrow> Inr (c # cs, g'')))"

text \<open>The outer comprehension \<^verbatim>\<open>[... for _ in range(height)]\<close>.\<close>

fun gen_rows :: "rng \<Rightarrow> nat \<Rightarrow> nat \<Rightarrow> cfg_value \<Rightarrow> error + (string list list \<times> rng)" where
  "gen_rows g 0 w colours = Inr ([], g)"
| "gen_rows g (Suc n) w colours =
     (case gen_row g w colours of
        Inl e \<Rightarrow> Inl e
      | Inr (r, g') \<Rightarrow>
          (case gen_rows g' n w colours of
             Inl e \<Rightarrow> Inl e
           | Inr (rs, g'') \<Rightarrow> Inr (r # rs, g'')))"

text \<open>
  \<^verbatim>\<open>Main.__gen_pattern(width, height, colours)\<close>. \<^verbatim>\<open>range(n)\<close> is empty for
  \<open>n \<le> 0\<close>, which is what \<^term>\<open>nat\<close> gives.
\<close>

definition gen_pattern :: "rng \<Rightarrow> int \<Rightarrow> int \<Rightarrow> cfg_value \<Rightarrow> error + (string list list \<times> rng)" where
  "gen_pattern g width height colours = gen_rows g (nat height) (nat width) colours"

text \<open>
  The call at the end of \<^verbatim>\<open>Main.__config\<close>:
  \<^verbatim>\<open>__gen_pattern(round(width / side_length), round(height / side_length), colours)\<close>.
  The arguments are evaluated left to right.
\<close>

definition generate ::
  "rng \<Rightarrow> cfg_value \<Rightarrow> cfg_value \<Rightarrow> cfg_value \<Rightarrow> cfg_value \<Rightarrow> error + (string list list \<times> rng)" where
  "generate g width height side_length colours =
     (case true_div width side_length of
        Inl e \<Rightarrow> Inl e
      | Inr qw \<Rightarrow>
          (case true_div height side_length of
             Inl e \<Rightarrow> Inl e
           | Inr qh \<Rightarrow> gen_pattern g (py_round qw) (py_round qh) colours))"

section \<open>Loading and checking a configuration file\<close>

text \<open>
  \<^verbatim>\<open>pathlib\<close>, \<^verbatim>\<open>open\<close> and \<^verbatim>\<open>json.loads\<close> are outside the program. The
  environment gives their answers: whether \<^verbatim>\<open>Path(file).is_file()\<close> holds, what
  \<^verbatim>\<open>Path(file).suffix\<close> is, and what \<^verbatim>\<open>loads(open(file, "r").read())\<close> returns or
  raises (\<^term>\<open>OSError\<close> when the file cannot be opened, \<^term>\<open>JSONDecodeError\<close> when
  its text is not valid JSON).
\<close>

record env =
  path_is_file :: "string \<Rightarrow> bool"
  path_suffix :: "string \<Rightarrow> string"
  read_json :: "string \<Rightarrow> error + dict"

definition DEFAULT_CONFIG_FILE :: string where
  "DEFAULT_CONFIG_FILE = ''./config.json''"

definition NECESSARY_KEYS :: "string list" where
  "NECESSARY_KEYS = [''speed'', ''height'', ''width'', ''side_length'', ''colours'']"

text \<open>\<^verbatim>\<open>_load_config(file)\<close>.\<close>

definition load_config :: "env \<Rightarrow> string \<Rightarrow> error + dict" where
  "load_config e file = read_json e file"

text \<open>
  The loop of \<^verbatim>\<open>_check_valid_file\<close> over the necessary keys; the file is loaded again
  for every key.
\<close>

fun check_keys :: "env \<Rightarrow> string \<Rightarrow> string list \<Rightarrow> error + bool" where
  "check_keys e file [] = Inr True"
| "check_keys e file (item # items) =
     (case load_config e file of
        Inl err \<Rightarrow> Inl err
      | Inr d \<Rightarrow> if d item = None then Inr False else check_keys e file items)"

text \<open>\<^verbatim>\<open>_check_valid_file(file)\<close>.\<close>

definition check_valid_file :: "env \<Rightarrow> string \<Rightarrow> error + bool" where
  "check_valid_file e file =
     (if path_is_file e file \<and> path_suffix e file = ''.json''
      then check_keys e file NECESSARY_KEYS
      else Inr False)"

section \<open>Applying a configuration\<close>

text \<open>The attributes of \<^verbatim>\<open>Main\<close> once \<^verbatim>\<open>__config\<close> has returned.\<close>

record main =
  previous_drawing :: "string list list"
  config_contents :: dict
  speed :: cfg_value
  width :: int
  height :: int
  side_length :: int
  colours :: cfg_value
  pattern :: "string list list"

text \<open>
  \<^verbatim>\<open>contents[key] if key in contents.keys() else _DEFAULT_CONFIG[key]\<close>, where
  \<^verbatim>\<open>_DEFAULT_CONFIG\<close> is the dictionary loaded when the module was imported.
\<close>

definition lookup_key :: "dict \<Rightarrow> dict \<Rightarrow> string \<Rightarrow> error + cfg_value" where
  "lookup_key contents dflt key =
     (case contents key of
        Some v \<Rightarrow> Inr v
      | None \<Rightarrow> (case dflt key of Some v \<Rightarrow> Inr v | None \<Rightarrow> Inl KeyError))"

text \<open>
  The assignments of \<^verbatim>\<open>Main.__config\<close> after the contents have been chosen. When
  the pattern has been generated both divisions have succeeded, so width, height and
  side length are integers.
\<close>

definition apply_contents :: "dict \<Rightarrow> rng \<Rightarrow> dict \<Rightarrow> error + (main \<times> rng)" where
  "apply_contents dflt g contents =
     (case lookup_key contents dflt ''speed'' of Inl err \<Rightarrow> Inl err | Inr sp \<Rightarrow>
     (case lookup_key contents dflt ''width'' of Inl err \<Rightarrow> Inl err | Inr w \<Rightarrow>
     (case lookup_key contents dflt ''height'' of Inl err \<Rightarrow> Inl err | Inr h \<Rightarrow>
     (case lookup_key contents dflt ''side_length'' of Inl err \<Rightarrow> Inl err | Inr sl \<Rightarrow>
     (case lookup_key contents dflt ''colours'' of Inl err \<Rightarrow> Inl err | Inr cs \<Rightarrow>
     (case generate g w h sl cs of Inl err \<Rightarrow> Inl err | Inr (p, g') \<Rightarrow>
     (case (w, h, sl) of
        (IntV wi, IntV hi, IntV si) \<Rightarrow>
          Inr (\<lparr>previous_drawing = [], config_contents = contents, speed = sp,
                width = wi, height = hi, side_length = si, colours = cs, pattern = p\<rparr>, g')
      | _ \<Rightarrow> Inl TypeError)))))))"

text \<open>
  \<^verbatim>\<open>Main.__config(file)\<close>: the contents are those of the file when
  \<^verbatim>\<open>_check_valid_file\<close> returns true, those of the default file otherwise. Nothing
  catches an exception of either call.
\<close>

definition config :: "env \<Rightarrow> dict \<Rightarrow> rng \<Rightarrow> string \<Rightarrow> error + (main \<times> rng)" where
  "config e dflt g file =
     (case check_valid_file e file of
        Inl err \<Rightarrow> Inl err
      | Inr valid \<Rightarrow>
          (case load_config e (if valid then file else DEFAULT_CONFIG_FILE) of
             Inl err \<Rightarrow> Inl err
           | Inr contents \<Rightarrow> apply_contents dflt g contents))"

section \<open>The drawing cursor\<close>

text \<open>The calls that \<^verbatim>\<open>Main.__draw_pattern\<close> makes, in the order it makes them.\<close>

datatype command =
  WinSetup int int | HideTurtle | Speed cfg_value | PenUp | Goto rat rat
  | PenDown | Color string | BeginFill | Forward int | Right int | EndFill
  | Sleep nat | WinBye | SysExit

text \<open>
  Modelled from the spec: the \<^verbatim>\<open>turtle\<close> module is outside the program, so the cursor
  is the one of the spec's data model: a position, a pen state, a fill state and a heading
  in degrees that is a multiple of 90, over exact arithmetic. Heading 0 points along the
  positive x axis, 90 along the positive y axis; \<^verbatim>\<open>right\<close> turns clockwise. Every
  colour string is accepted. The calls issued so far are recorded.
\<close>

record turtle =
  xcor :: rat
  ycor :: rat
  heading :: int
  isdown :: bool
  filling :: bool
  pencolor :: string
  isvisible :: bool
  issued :: "command list"

text \<open>A turtle as \<^verbatim>\<open>Turtle()\<close> creates it.\<close>

definition new_turtle :: turtle where
  "new_turtle =
     \<lparr>xcor = 0, ycor = 0, heading = 0, isdown = True, filling = False,
      pencolor = ''black'', isvisible = True, issued = []\<rparr>"

definition issue :: "command \<Rightarrow> turtle \<Rightarrow> turtle" where
  "issue c t = t\<lparr>issued := issued t @ [c]\<rparr>"

text \<open>The unit vector of a heading that is a multiple of 90 degrees.\<close>

definition dir_x :: "int \<Rightarrow> rat" where
  "dir_x h = (if h mod 360 = 0 then 1 else if h mod 360 = 180 then - 1 else 0)"

definition dir_y :: "int \<Rightarrow> rat" where
  "dir_y h = (if h mod 360 = 90 then 1 else if h mod 360 = 270 then - 1 else 0)"

definition win_setup :: "int \<Rightarrow> int \<Rightarrow> turtle \<Rightarrow> turtle" where
  "win_setup w h t = issue (WinSetup w h) t"

definition hideturtle :: "turtle \<Rightarrow> turtle" where
  "hideturtle t = issue HideTurtle (t\<lparr>isvisible := False\<rparr>)"

definition set_speed :: "cfg_value \<Rightarrow> turtle \<Rightarrow> turtle" where
  "set_speed v t = issue (Speed v) t"

definition penup :: "turtle \<Rightarrow> turtle" where
  "penup t = issue PenUp (t\<lparr>isdown := False\<rparr>)"

definition pendown :: "turtle \<Rightarrow> turtle" where
  "pendown t = issue PenDown (t\<lparr>isdown := True\<rparr>)"

definition goto :: "rat \<Rightarrow> rat \<Rightarrow> turtle \<Rightarrow> turtle" where
  "goto x y t = issue (Goto x y) (t\<lparr>xcor := x, ycor := y\<rparr>)"

definition color :: "string \<Rightarrow> turtle \<Rightarrow> turtle" where
  "color c t = issue (Color c) (t\<lparr>pencolor := c\<rparr>)"

definition begin_fill :: "turtle \<Rightarrow> turtle" where
  "begin_fill t = issue BeginFill (t\<lparr>filling := True\<rparr>)"

definition end_fill :: "turtle \<Rightarrow> turtle" where
  "end_fill t = issue EndFill (t\<lparr>filling := False\<rparr>)"

definition forward :: "int \<Rightarrow> turtle \<Rightarrow> turtle" where
  "forward d t =
     issue (Forward d)
       (t\<lparr>xcor := xcor t + of_int d * dir_x (heading t),
          ycor := ycor t + of_int d * dir_y (heading t)\<rparr>)"

definition right :: "int \<Rightarrow> turtle \<Rightarrow> turtle" where
  "right a t = issue (Right a) (t\<lparr>heading := (heading t - a) mod 360\<rparr>)"

definition sleep :: "nat \<Rightarrow> turtle \<Rightarrow> turtle" where
  "sleep n t = issue (Sleep n) t"

definition win_bye :: "turtle \<Rightarrow> turtle" where
  "win_bye t = issue WinBye t"

definition sysexit :: "turtle \<Rightarrow> turtle" where
  "sysexit t = issue SysExit t"

section \<open>Drawing the pattern\<close>

text \<open>\<^verbatim>\<open>for _ in range(4): forward(side_length); right(90)\<close>.\<close>

fun draw_square :: "nat \<Rightarrow> int \<Rightarrow> turtle \<Rightarrow> turtle" where
  "draw_square 0 s t = t"
| "draw_square (Suc n) s t = draw_square n s (right 90 (forward s t))"

text \<open>
  The body of \<^verbatim>\<open>for item in row\<close>: pen down, colour, begin the fill, the square, end the
  fill, one step forward.
\<close>

definition draw_item :: "int \<Rightarrow> string \<Rightarrow> turtle \<Rightarrow> turtle" where
  "draw_item s item t =
     forward s (end_fill (draw_square 4 s (begin_fill (color item (pendown t)))))"

fun draw_items :: "int \<Rightarrow> string list \<Rightarrow> turtle \<Rightarrow> turtle" where
  "draw_items s [] t = t"
| "draw_items s (item # items) t = draw_items s items (draw_item s item t)"

text \<open>
  The body of \<^verbatim>\<open>for row in self.__pattern\<close>: the items, then
  \<^verbatim>\<open>penup(); goto(-width / 2, ycor() - side_length)\<close>.
\<close>

definition start_new_line :: "int \<Rightarrow> int \<Rightarrow> turtle \<Rightarrow> turtle" where
  "start_new_line w s t =
     (let t' = penup t in goto (of_int (- w) / 2) (ycor t' - of_int s) t')"

definition draw_row :: "int \<Rightarrow> int \<Rightarrow> string list \<Rightarrow> turtle \<Rightarrow> turtle" where
  "draw_row w s row t = start_new_line w s (draw_items s row t)"

fun draw_rows :: "int \<Rightarrow> int \<Rightarrow> string list list \<Rightarrow> turtle \<Rightarrow> turtle" where
  "draw_rows w s [] t = t"
| "draw_rows w s (row # rows) t = draw_rows w s rows (draw_row w s row t)"

text \<open>The first lines of \<^verbatim>\<open>Main.__draw_pattern\<close>, up to the move to the top left.\<close>

definition initialise :: "main \<Rightarrow> turtle \<Rightarrow> turtle" where
  "initialise m t =
     goto (of_int (- width m) / 2) (of_int (height m) / 2)
       (penup (set_speed (speed m) (hideturtle (win_setup (width m) (height m) t))))"

text \<open>Its last lines: \<^verbatim>\<open>sleep(10); bye(); sysexit()\<close>.\<close>

definition finish :: "turtle \<Rightarrow> turtle" where
  "finish t = sysexit (win_bye (sleep 10 t))"

text \<open>\<^verbatim>\<open>Main.__draw_pattern\<close>.\<close>

definition draw_pattern :: "main \<Rightarrow> turtle \<Rightarrow> turtle" where
  "draw_pattern m t =
     finish (draw_rows (width m) (side_length m) (pattern m) (initialise m t))"

section \<open>The interactive colour check\<close>

text \<open>
  \<^verbatim>\<open>findall(_HEX_CODE_REGEX, s)\<close> is non-empty, for the pattern
  \<^verbatim>\<open>^#(?:[0-9a-fA-F]{3}){1,2}$\<close>: a hash sign and three or six hexadecimal digits,
  where \<^verbatim>\<open>$\<close> also matches before one final newline. Only
  \<^verbatim>\<open>_colour_input\<close> uses it, when a new configuration is typed in.
\<close>

definition hex_digit :: "char \<Rightarrow> bool" where
  "hex_digit c = (c \<in> set ''0123456789abcdefABCDEF'')"

definition matches_hex_code :: "string \<Rightarrow> bool" where
  "matches_hex_code s =
     (case s of
        [] \<Rightarrow> False
      | c # r \<Rightarrow>
          c = CHR ''#'' \<and>
          (let body = (if r \<noteq> [] \<and> last r = CHR 0x0A then butlast r else r)
           in (length body = 3 \<or> length body = 6) \<and> list_all hex_digit body))"

section \<open>The calls a render pass is expected to issue\<close>

text \<open>
  The renderer of the spec, as sequences of calls: one square-draw sequence per cell, one
  row advance after each row, the positioning before the first row and the tear-down after
  the last.
\<close>

definition item_trace :: "int \<Rightarrow> string \<Rightarrow> command list" where
  "item_trace s c =
     [PenDown, Color c, BeginFill,
      Forward s, Right 90, Forward s, Right 90, Forward s, Right 90, Forward s, Right 90,
      EndFill, Forward s]"

definition row_advance :: "int \<Rightarrow> int \<Rightarrow> rat \<Rightarrow> command list" where
  "row_advance w s y = [PenUp, Goto (of_int (- w) / 2) (y - of_int s)]"

fun rows_trace :: "int \<Rightarrow> int \<Rightarrow> rat \<Rightarrow> string list list \<Rightarrow> command list" where
  "rows_trace w s y [] = []"
| "rows_trace w s y (row # rows) =
     concat (map (item_trace s) row) @ row_advance w s y @ rows_trace w s (y - of_int s) rows"

text \<open>Row advances alone, as many as the number says, each one side length lower.\<close>

fun advances :: "int \<Rightarrow> int \<Rightarrow> rat \<Rightarrow> nat \<Rightarrow> command list" where
  "advances w s y 0 = []"
| "advances w s y (Suc n) = row_advance w s y @ advances w s (y - of_int s) n"

definition initial_trace :: "main \<Rightarrow> command list" where
  "initial_trace m =
     [WinSetup (width m) (height m), HideTurtle, Speed (speed m), PenUp,
      Goto (of_int (- width m) / 2) (of_int (height m) / 2)]"

definition final_trace :: "command list" where
  "final_trace = [Sleep 10, WinBye, SysExit]"


text \<open>An empty grid: no rows, or rows without columns.\<close>

definition empty_grid :: "string list list \<Rightarrow> bool" where
  "empty_grid p = list_all (\<lambda>row. row = []) p"

section \<open>Example inputs\<close>

text \<open>A random source whose every draw is 0.\<close>

definition zero_rng :: rng where
  "zero_rng = (\<lambda>i. 0)"

text \<open>A configuration with all five keys.\<close>

definition example_dict :: "int \<Rightarrow> int \<Rightarrow> int \<Rightarrow> string list \<Rightarrow> dict" where
  "example_dict w h sl cs =
     [''speed'' \<mapsto> IntV 0, ''width'' \<mapsto> IntV w, ''height'' \<mapsto> IntV h,
      ''side_length'' \<mapsto> IntV sl, ''colours'' \<mapsto> ListV cs]"

definition default_dict :: dict where
  "default_dict = example_dict 500 500 50 [''#ff0000'', ''#00ff00'', ''#0000ff'']"

text \<open>
  An environment with two files: the default configuration file and one more file with the
  given name, for which \<^verbatim>\<open>loads\<close> gives the given result.
\<close>

definition example_env :: "string \<Rightarrow> error + dict \<Rightarrow> env" where
  "example_env name content =
     \<lparr>path_is_file = (\<lambda>f. f = name \<or> f = DEFAULT_CONFIG_FILE),
      path_suffix = (\<lambda>f. if f = name \<or> f = DEFAULT_CONFIG_FILE then ''.json'' else []),
      read_json = (\<lambda>f. if f = name then content
                         else if f = DEFAULT_CONFIG_FILE then Inr default_dict
                         else Inl OSError)\<rparr>"

definition alt_file :: string where
  "alt_file = ''./alt-configs/a.json''"


section \<open>Rounding\<close>

lemma floor_bounds: "of_int \<lfloor>x\<rfloor> \<le> (x::rat) \<and> x < of_int \<lfloor>x\<rfloor> + 1"
  by linarith

lemma py_round_near: "\<bar>of_int (py_round x) - x\<bar> \<le> 1 / 2"
  using floor_bounds [of x] unfolding py_round_def Let_def by (simp add: abs_le_iff)

lemma py_round_tie: "\<bar>of_int (py_round x) - x\<bar> = 1 / 2 \<Longrightarrow> even (py_round x)"
proof -
  assume a: "\<bar>of_int (py_round x) - x\<bar> = 1 / 2"
  let ?f = "\<lfloor>x\<rfloor>"
  have b: "of_int ?f \<le> x" "x < of_int ?f + 1" by linarith+
  consider "x - of_int ?f < 1 / 2" | "1 / 2 < x - of_int ?f" | "x - of_int ?f = 1 / 2"
    by linarith
  then show ?thesis
  proof cases
    case 1
    then have "py_round x = ?f" by (simp add: py_round_def Let_def)
    with a have "\<bar>of_int ?f - x\<bar> = 1 / 2" by simp
    with b 1 have False by linarith
    then show ?thesis ..
  next
    case 2
    then have "py_round x = ?f + 1" by (simp add: py_round_def Let_def)
    with a have "\<bar>of_int ?f + 1 - x\<bar> = 1 / 2" by simp
    with b 2 have False by linarith
    then show ?thesis ..
  next
    case 3
    then show ?thesis by (simp add: py_round_def Let_def)
  qed
qed

lemma py_round_nonneg: "0 \<le> x \<Longrightarrow> 0 \<le> py_round x"
proof -
  assume "0 \<le> x"
  then have "0 \<le> \<lfloor>x\<rfloor>" by simp
  then show ?thesis unfolding py_round_def Let_def by simp
qed

text \<open>Nearest with ties to even determines the result, so \<^term>\<open>py_round\<close> is that rule.\<close>

lemma py_round_unique:
  assumes "\<bar>of_int k - x\<bar> \<le> 1 / 2" "\<bar>of_int k - x\<bar> = 1 / 2 \<Longrightarrow> even k"
  shows "py_round x = k"
proof -
  let ?r = "py_round x"
  have n: "\<bar>of_int ?r - x\<bar> \<le> 1 / 2" by (rule py_round_near)
  have "\<bar>(of_int ?r :: rat) - of_int k\<bar> \<le> 1" using n assms(1) by linarith
  then have d: "\<bar>?r - k\<bar> \<le> 1" by (metis of_int_abs of_int_diff of_int_le_1_iff)
  show ?thesis
  proof (rule ccontr)
    assume ne: "?r \<noteq> k"
    with d have c: "?r = k + 1 \<or> ?r = k - 1" by linarith
    then have "\<bar>of_int ?r - x\<bar> = 1 / 2 \<and> \<bar>of_int k - x\<bar> = 1 / 2"
      using n assms(1) by (auto simp: abs_if split: if_splits; linarith)
    then have "even ?r" "even k" using py_round_tie assms(2) by auto
    with c show False by auto
  qed
qed

text \<open>On a quotient of integers the floor is integer division.\<close>

lemma py_round_quotient:
  "py_round (of_int a / of_int b) =
     (let f = a div b; d = (of_int a / of_int b :: rat) - of_int f in
      if d < 1 / 2 then f else if 1 / 2 < d then f + 1 else if even f then f else f + 1)"
  by (simp add: py_round_def floor_divide_of_int_eq)

section \<open>The float quotient\<close>

lemma py_round_of_int [simp]: "py_round (of_int n) = n"
  by (rule py_round_unique) simp_all

lemma bitlen_powi_bounds:
  assumes "0 < a"
  shows "(2::rat) powi (bitlen a - 1) \<le> of_int a" "(of_int a :: rat) < 2 powi bitlen a"
proof -
  from bitlen_bounds [OF assms] have l: "2 ^ nat (bitlen a - 1) \<le> a" and u: "a < 2 ^ nat (bitlen a)"
    by simp_all
  have p: "1 \<le> bitlen a" using assms bitlen_eq_zero_iff [of a] bitlen_nonneg [of a] by linarith
  have "(of_int (2 ^ nat (bitlen a - 1)) :: rat) \<le> of_int a" using l by (simp only: of_int_le_iff)
  then show "(2::rat) powi (bitlen a - 1) \<le> of_int a" using p by (simp add: power_int_def)
  have "(of_int a :: rat) < of_int (2 ^ nat (bitlen a))" using u by (simp only: of_int_less_iff)
  then show "(of_int a :: rat) < 2 powi bitlen a" using p by (simp add: power_int_def)
qed

lemma binade_bounds:
  assumes "0 < a" "0 < b"
  shows "(2::rat) powi binade a b \<le> of_int a / of_int b"
    and "(of_int a / of_int b :: rat) < 2 powi (binade a b + 1)"
proof -
  let ?x = "of_int a / of_int b :: rat" and ?d = "bitlen a - bitlen b"
  note A = bitlen_powi_bounds [OF assms(1)] and B = bitlen_powi_bounds [OF assms(2)]
  have b0: "(0::rat) < of_int b" using assms(2) by simp
  have lo: "(2::rat) powi (?d - 1) \<le> ?x"
  proof -
    have "(2::rat) powi (?d - 1) * of_int b \<le> 2 powi (?d - 1) * 2 powi bitlen b"
      using B(2) by (intro mult_left_mono) simp_all
    also have "\<dots> = 2 powi (bitlen a - 1)" by (simp flip: power_int_add)
    also have "\<dots> \<le> of_int a" by (rule A(1))
    finally show ?thesis using b0 by (simp add: pos_le_divide_eq)
  qed
  have hi: "?x < 2 powi (?d + 1)"
  proof -
    have "(of_int a :: rat) < 2 powi bitlen a" by (rule A(2))
    also have "\<dots> = 2 powi (?d + 1) * 2 powi (bitlen b - 1)" by (simp flip: power_int_add)
    also have "\<dots> \<le> 2 powi (?d + 1) * of_int b"
      using B(1) by (intro mult_left_mono) simp_all
    finally show ?thesis using b0 by (simp add: pos_divide_less_eq)
  qed
  show "(2::rat) powi binade a b \<le> ?x" using lo by (simp add: binade_def Let_def)
  show "?x < 2 powi (binade a b + 1)" using hi by (auto simp: binade_def Let_def not_le)
qed

lemma ulp_pos: "0 < ulp a b"
  by (simp add: ulp_def)

lemma nearest_double_error:
  assumes "a \<noteq> 0"
  shows "\<bar>nearest_double a b - of_int a / of_int b\<bar> \<le> ulp a b / 2"
proof -
  let ?x = "of_int a / of_int b :: rat" and ?u = "ulp a b"
  have "\<bar>of_int (py_round (?x / ?u)) - ?x / ?u\<bar> * ?u \<le> 1 / 2 * ?u"
    using py_round_near [of "?x / ?u"] ulp_pos [of a b] by (intro mult_right_mono) simp_all
  moreover have "\<bar>of_int (py_round (?x / ?u)) - ?x / ?u\<bar> * ?u
      = \<bar>of_int (py_round (?x / ?u)) * ?u - ?x\<bar>"
  proof -
    have "\<bar>of_int (py_round (?x / ?u)) - ?x / ?u\<bar> * ?u
        = \<bar>(of_int (py_round (?x / ?u)) - ?x / ?u) * ?u\<bar>"
      using ulp_pos [of a b] by (simp add: abs_mult)
    also have "(of_int (py_round (?x / ?u)) - ?x / ?u) * ?u = of_int (py_round (?x / ?u)) * ?u - ?x"
      using ulp_pos [of a b] by (simp add: left_diff_distrib)
    finally show ?thesis .
  qed
  ultimately show ?thesis using assms by (simp add: nearest_double_def)
qed

lemma nearest_double_nonneg:
  assumes "0 \<le> a" "0 < b"
  shows "0 \<le> nearest_double a b"
proof (cases "a = 0")
  case True
  then show ?thesis by (simp add: nearest_double_def)
next
  case False
  have "0 \<le> of_int a / of_int b / ulp a b" using assms ulp_pos [of a b] by simp
  then have "0 \<le> py_round (of_int a / of_int b / ulp a b)" by (rule py_round_nonneg)
  then show ?thesis using False ulp_pos [of a b] by (simp add: nearest_double_def)
qed

lemma py_round_below_half: "0 \<le> z \<Longrightarrow> z < 1 / 2 \<Longrightarrow> py_round z = 0"
  by (rule py_round_unique) simp_all

lemma binade_less:
  assumes "0 < a" "0 < b" "(of_int a / of_int b :: rat) < 2 powi n"
  shows "binade a b < n"
proof (rule ccontr)
  assume "\<not> binade a b < n"
  then have "(2::rat) powi n \<le> 2 powi binade a b" by (intro power_int_increasing) simp_all
  with binade_bounds(1) [OF assms(1,2)] assms(3) show False by linarith
qed

lemma binade_ge:
  assumes "0 < a" "0 < b" "(2::rat) powi n \<le> of_int a / of_int b"
  shows "n \<le> binade a b"
proof (rule ccontr)
  assume "\<not> n \<le> binade a b"
  then have "(2::rat) powi (binade a b + 1) \<le> 2 powi n" by (intro power_int_increasing) simp_all
  with binade_bounds(2) [OF assms(1,2)] assms(3) show False by linarith
qed

lemma ulp_le_half:
  assumes "0 < a" "a < 2 ^ 52" "0 < b"
  shows "ulp a b \<le> 1 / 2"
proof -
  have "(of_int a :: rat) < of_int (2 ^ 52)" using assms(2) by (simp only: of_int_less_iff)
  then have "(of_int a :: rat) < 2 ^ 52" by simp
  moreover have "(of_int a / of_int b :: rat) \<le> of_int a"
    using assms(1,3) by (simp add: divide_le_eq mult_le_cancel_left1)
  ultimately have "(of_int a / of_int b :: rat) < 2 powi 52" by simp
  from binade_less [OF assms(1,3) this] have "binade a b < 52" .
  then have "max (binade a b) (DBL_MIN_EXP - 1) - (DBL_MANT_DIG - 1) \<le> - 1"
    by (simp add: DBL_MIN_EXP_def DBL_MANT_DIG_def)
  then have "ulp a b \<le> 2 powi (- 1)" unfolding ulp_def by (intro power_int_increasing) simp_all
  then show ?thesis by simp
qed

lemma ulp_normal:
  assumes "0 < a" "0 < b" "1 / 4 \<le> (of_int a / of_int b :: rat)"
  shows "ulp a b * 2 ^ 52 \<le> of_int a / of_int b"
proof -
  have "(2::rat) powi (- 2) \<le> of_int a / of_int b" using assms(3) by simp
  from binade_ge [OF assms(1,2) this] have e: "- 2 \<le> binade a b" .
  then have "ulp a b = 2 powi (binade a b - 52)"
    by (simp add: ulp_def DBL_MIN_EXP_def DBL_MANT_DIG_def max_def)
  also have "\<dots> = 2 powi binade a b / 2 powi 52" by (simp add: power_int_diff)
  finally have "ulp a b * 2 ^ 52 = 2 powi binade a b" by simp
  with binade_bounds(1) [OF assms(1,2)] show ?thesis by simp
qed

lemma ulp_divides_half_integer:
  assumes "0 < a" "a < 2 ^ 52" "0 < b" "(of_int a / of_int b :: rat) = of_int j + 1 / 2"
  shows "nearest_double a b = of_int a / of_int b"
proof -
  let ?x = "of_int a / of_int b :: rat"
  have x0: "0 < ?x" using assms(1,3) by simp
  have j0: "0 \<le> j"
  proof (rule ccontr)
    assume "\<not> 0 \<le> j"
    then have "j \<le> - 1" by linarith
    then have "(of_int j :: rat) \<le> of_int (- 1)" by (simp only: of_int_le_iff)
    then have "(of_int j :: rat) \<le> - 1" by simp
    with assms(4) x0 show False by linarith
  qed
  then have q: "1 / 4 \<le> ?x" using assms(4) by simp
  have "(2::rat) powi (- 2) \<le> ?x" using q by simp
  from binade_ge [OF assms(1,3) this] have e: "- 2 \<le> binade a b" .
  have "(of_int a :: rat) < of_int (2 ^ 52)" using assms(2) by (simp only: of_int_less_iff)
  then have "(of_int a :: rat) < 2 ^ 52" by simp
  moreover have "?x \<le> of_int a" using assms(1,3) by (simp add: divide_le_eq mult_le_cancel_left1)
  ultimately have "?x < 2 powi 52" by simp
  from binade_less [OF assms(1,3) this] have e2: "binade a b < 52" .
  define n where "n = nat (51 - binade a b)"
  have u: "ulp a b = 2 powi (binade a b - 52)"
    using e by (simp add: ulp_def DBL_MIN_EXP_def DBL_MANT_DIG_def max_def)
  have "1 / ulp a b = 2 powi (52 - binade a b)"
    unfolding u by (simp add: power_int_diff)
  also have "\<dots> = 2 * 2 powi (51 - binade a b)"
    by (simp add: power_int_diff)
  also have "\<dots> = 2 * 2 ^ n" using e2 by (simp add: n_def power_int_def)
  finally have iu: "1 / ulp a b = 2 * 2 ^ n" .
  have "?x / ulp a b = ?x * (1 / ulp a b)" by simp
  also have "\<dots> = (of_int j + 1 / 2) * (2 * 2 ^ n)" by (simp only: iu assms(4))
  also have "\<dots> = of_int ((2 * j + 1) * 2 ^ n)" by (simp add: algebra_simps)
  finally have "?x / ulp a b = of_int ((2 * j + 1) * 2 ^ n)" .
  then have "py_round (?x / ulp a b) = (2 * j + 1) * 2 ^ n" by (simp only: py_round_of_int)
  then have "of_int (py_round (?x / ulp a b)) = ?x / ulp a b"
    using \<open>?x / ulp a b = of_int ((2 * j + 1) * 2 ^ n)\<close> by simp
  then show ?thesis using assms(1) ulp_pos [of a b] by (simp add: nearest_double_def)
qed

lemma quotient_lattice:
  assumes "0 < b" "\<bar>of_int k - (of_int a / of_int b :: rat)\<bar> < 1 / 2"
  shows "\<bar>of_int k - (of_int a / of_int b :: rat)\<bar> \<le> 1 / 2 - 1 / (2 * of_int b)"
proof -
  have b0: "(0::rat) < of_int b" using assms(1) by simp
  define n where "n = \<bar>k * b - a\<bar>"
  have e: "\<bar>of_int k - (of_int a / of_int b :: rat)\<bar> = of_int n / of_int b"
  proof -
    have "of_int k - (of_int a / of_int b :: rat) = of_int (k * b - a) / of_int b"
      using b0 by (simp add: diff_divide_distrib)
    then have "\<bar>of_int k - (of_int a / of_int b :: rat)\<bar> = \<bar>of_int (k * b - a)\<bar> / \<bar>of_int b\<bar>"
      by (simp only: abs_divide)
    then show ?thesis using b0 by (simp add: n_def)
  qed
  with assms(2) have "(of_int n / of_int b :: rat) < 1 / 2" by simp
  then have "(of_int n :: rat) * 2 < of_int b" using b0 by (simp add: pos_divide_less_eq)
  then have "(of_int (n * 2) :: rat) < of_int b" by simp
  then have "n * 2 < b" by (simp only: of_int_less_iff)
  then have "n * 2 + 1 \<le> b" by linarith
  then have "(of_int (n * 2 + 1) :: rat) \<le> of_int b" by (simp only: of_int_le_iff)
  then have "(of_int n :: rat) * 2 + 1 \<le> of_int b" by simp
  then have "(of_int n / of_int b :: rat) \<le> 1 / 2 - 1 / (2 * of_int b)"
    using b0 by (simp add: field_simps)
  with e show ?thesis by simp
qed

lemma nearest_double_small:
  assumes "0 < a" "a < 2 ^ 52" "0 < b"
  shows "py_round (nearest_double a b) = py_round (of_int a / of_int b)"
    and "nearest_double a b < 2 powi DBL_MAX_EXP"
proof -
  let ?x = "of_int a / of_int b :: rat" and ?y = "nearest_double a b" and ?u = "ulp a b"
  have a0: "a \<noteq> 0" using assms(1) by simp
  have b0: "(0::rat) < of_int b" using assms(3) by simp
  have x0: "0 < ?x" using assms(1,3) by simp
  have y0: "0 \<le> ?y" using assms(1,3) by (intro nearest_double_nonneg) simp_all
  note err = nearest_double_error [OF a0, of b]
  note uh = ulp_le_half [OF assms]
  have a52: "(of_int a :: rat) < 2 ^ 52"
  proof -
    have "(of_int a :: rat) < of_int (2 ^ 52)" using assms(2) by (simp only: of_int_less_iff)
    then show ?thesis by simp
  qed
  have xa: "?x \<le> of_int a" using assms(1,3) by (simp add: divide_le_eq mult_le_cancel_left1)
  have "?y \<le> ?x + ?u / 2" using err by linarith
  also have "\<dots> < 2 ^ 52 + 1" using xa a52 uh by linarith
  also have "\<dots> \<le> 2 powi 53" by simp
  also have "\<dots> \<le> 2 powi DBL_MAX_EXP"
    by (intro power_int_increasing) (simp_all add: DBL_MAX_EXP_def)
  finally show "?y < 2 powi DBL_MAX_EXP" .
  show "py_round ?y = py_round ?x"
  proof (cases "?x < 1 / 4")
    case True
    have "?y \<le> ?x + ?u / 2" using err by linarith
    with True uh have "?y < 1 / 2" by linarith
    with y0 have "py_round ?y = 0" by (rule py_round_below_half)
    moreover have "py_round ?x = 0"
    proof (rule py_round_below_half)
      show "0 \<le> ?x" using x0 by (rule less_imp_le)
      show "?x < 1 / 2" using True by linarith
    qed
    ultimately show ?thesis by simp
  next
    case False
    then have q: "1 / 4 \<le> ?x" by simp
    define k where "k = py_round ?x"
    have near: "\<bar>of_int k - ?x\<bar> \<le> 1 / 2" unfolding k_def by (rule py_round_near)
    show ?thesis
    proof (cases "\<bar>of_int k - ?x\<bar> = 1 / 2")
      case True
      then have "of_int k - ?x = 1 / 2 \<or> of_int k - ?x = - (1 / 2)" by linarith
      then have "\<exists>j. ?x = of_int j + 1 / 2"
      proof
        assume "of_int k - ?x = 1 / 2"
        then have "?x = of_int (k - 1) + 1 / 2" by simp
        then show ?thesis ..
      next
        assume "of_int k - ?x = - (1 / 2)"
        then have "?x = of_int k + 1 / 2" by simp
        then show ?thesis ..
      qed
      then obtain j where "?x = of_int j + 1 / 2" ..
      from ulp_divides_half_integer [OF assms this] show ?thesis by simp
    next
      case False
      with near have "\<bar>of_int k - ?x\<bar> < 1 / 2" by linarith
      from quotient_lattice [OF assms(3) this]
      have l: "\<bar>of_int k - ?x\<bar> \<le> 1 / 2 - 1 / (2 * of_int b)" .
      have "?u * 2 ^ 52 \<le> ?x" by (rule ulp_normal [OF assms(1,3) q])
      then have "?u / 2 \<le> ?x / 2 ^ 53" by simp
      also have "\<dots> < 1 / (2 * of_int b)"
      proof -
        have "?x / 2 ^ 53 = of_int a / 2 ^ 52 / (2 * of_int b)" by simp
        also have "\<dots> < 1 / (2 * of_int b)"
          using a52 b0 by (intro divide_strict_right_mono) simp_all
        finally show ?thesis .
      qed
      finally have "?u / 2 < 1 / (2 * of_int b)" .
      with err l have "\<bar>of_int k - ?y\<bar> < 1 / 2" by linarith
      then have "py_round ?y = k" by (intro py_round_unique) simp_all
      then show ?thesis by (simp add: k_def)
    qed
  qed
qed


lemma int_true_div_small:
  assumes "0 \<le> a" "a < 2 ^ 52" "0 < b"
  shows "\<exists>q. int_true_div a b = Inr q \<and> 0 \<le> q
     \<and> py_round q = py_round (of_int a / of_int b)"
proof (cases "a = 0")
  case True
  then show ?thesis using assms(3) by (simp add: int_true_div_def nearest_double_def not_le)
next
  case False
  with assms(1) have a: "0 < a" by simp
  note s = nearest_double_small [OF a assms(2,3)]
  have n: "0 \<le> nearest_double a b" using a assms(3) by (intro nearest_double_nonneg) simp_all
  have "int_true_div a b = Inr (nearest_double a b)"
    using a assms(3) s(2) by (simp add: int_true_div_def not_le)
  with s(1) n show ?thesis by simp
qed

lemma bitlen_one: "bitlen 1 = 1"
  by (subst compute_bitlen) simp

lemma nearest_double_power_of_two: "nearest_double (2 ^ n) 1 = 2 ^ n"
proof -
  have bl: "bitlen (2 ^ n) = int n + 1"
    using bitlen_pow2 [of 1 n] by (simp add: bitlen_one)
  have e: "binade (2 ^ n) 1 = int n"
    by (simp add: binade_def bl bitlen_one)
  have u: "ulp (2 ^ n) 1 = 2 powi (int n - 52)"
    by (simp add: ulp_def e DBL_MIN_EXP_def DBL_MANT_DIG_def max_def)
  have "(2::rat) powi (int n - (int n - 52)) = 2 powi int n / 2 powi (int n - 52)"
    by (rule power_int_diff) simp
  then have q: "(2::rat) ^ n / 2 powi (int n - 52) = 2 ^ 52" by simp
  have "(2::rat) powi (52 + (int n - 52)) = 2 powi 52 * 2 powi (int n - 52)"
    by (rule power_int_add) simp
  then have m: "(2::rat) ^ 52 * 2 powi (int n - 52) = 2 ^ n" by simp
  have "py_round ((2::rat) ^ 52) = 2 ^ 52"
    using py_round_of_int [of "2 ^ 52"] by simp
  with q have r: "of_int (py_round (2 ^ n / 2 powi (int n - 52))) = (2::rat) ^ 52" by simp
  have "nearest_double (2 ^ n) 1 = of_int (py_round (2 ^ n / 2 powi (int n - 52))) * 2 powi (int n - 52)"
    by (simp add: nearest_double_def u)
  also have "\<dots> = 2 ^ 52 * 2 powi (int n - 52)" by (simp only: r)
  also have "\<dots> = 2 ^ n" by (rule m)
  finally show ?thesis .
qed

lemma int_true_div_overflow:
  assumes "1024 \<le> n"
  shows "int_true_div (2 ^ n) 1 = Inl OverflowError"
proof -
  have "(2::rat) powi DBL_MAX_EXP \<le> 2 powi (int n)"
    using assms by (intro power_int_increasing) (simp_all add: DBL_MAX_EXP_def)
  then have "(2::rat) powi DBL_MAX_EXP \<le> 2 ^ n" by simp
  then show ?thesis by (simp add: int_true_div_def nearest_double_power_of_two)
qed

text \<open>
  Three quotients as the floats have them: one that rounds up to a tie of \<^term>\<open>py_round\<close>
  (the exact quotient is just below \<open>3 / 2\<close>), one that is not a binary fraction, and a
  negative one.
\<close>

lemma float_quotient_examples:
  "true_div (IntV (3 * 2 ^ 60 - 1)) (IntV (2 ^ 61)) = Inr (3 / 2)"
  "true_div (IntV 1) (IntV 5) = Inr (3602879701896397 / 2 ^ 54)"
  "true_div (IntV (- 7)) (IntV 2) = Inr (- (7 / 2))"
  by code_simp+

section \<open>The generated grid\<close>

lemma choice_mem: "choice g (ListV xs) = Inr (c, g') \<Longrightarrow> c \<in> set xs"
  by (auto split: if_splits)

lemma gen_row_length: "gen_row g n cs = Inr (r, g') \<Longrightarrow> length r = n"
  by (induction n arbitrary: g r g') (auto split: sum.splits prod.splits)

lemma gen_row_set: "gen_row g n (ListV xs) = Inr (r, g') \<Longrightarrow> set r \<subseteq> set xs"
proof (induction n arbitrary: g r g')
  case 0
  then show ?case by simp
next
  case (Suc n)
  then show ?case
    by (auto split: sum.splits prod.splits if_splits dest!: Suc.IH)
qed

lemma gen_row_total: "xs \<noteq> [] \<Longrightarrow> \<exists>r g'. gen_row g n (ListV xs) = Inr (r, g')"
proof (induction n arbitrary: g)
  case 0
  then show ?case by simp
next
  case (Suc n)
  from Suc.IH [OF Suc.prems, of "next_rng g"] obtain r g' where
    "gen_row (next_rng g) n (ListV xs) = Inr (r, g')" by blast
  with Suc.prems show ?case by simp
qed

lemma gen_rows_length: "gen_rows g n w cs = Inr (p, g') \<Longrightarrow> length p = n"
  by (induction n arbitrary: g p g') (auto split: sum.splits prod.splits)

lemma gen_rows_rect: "gen_rows g n w cs = Inr (p, g') \<Longrightarrow> row \<in> set p \<Longrightarrow> length row = w"
  by (induction n arbitrary: g p g') (auto split: sum.splits prod.splits dest: gen_row_length)

lemma gen_rows_set:
  "gen_rows g n w (ListV xs) = Inr (p, g') \<Longrightarrow> row \<in> set p \<Longrightarrow> set row \<subseteq> set xs"
proof (induction n arbitrary: g p g')
  case 0
  then show ?case by simp
next
  case (Suc n)
  from Suc.prems(1) obtain r g1 rs where
    r: "gen_row g w (ListV xs) = Inr (r, g1)" and
    rs: "gen_rows g1 n w (ListV xs) = Inr (rs, g')" and p: "p = r # rs"
    by (auto split: sum.splits prod.splits)
  from Suc.prems(2) p have "row = r \<or> row \<in> set rs" by auto
  then show ?case using gen_row_set [OF r] Suc.IH [OF rs] by blast
qed

lemma gen_rows_total: "xs \<noteq> [] \<Longrightarrow> \<exists>p g'. gen_rows g n w (ListV xs) = Inr (p, g')"
proof (induction n arbitrary: g)
  case 0
  then show ?case by simp
next
  case (Suc n)
  obtain r g1 where r: "gen_row g w (ListV xs) = Inr (r, g1)"
    using gen_row_total [OF Suc.prems] by blast
  obtain p g2 where "gen_rows g1 n w (ListV xs) = Inr (p, g2)"
    using Suc.IH [OF Suc.prems] by blast
  with r show ?case by simp
qed

lemma gen_row_empty: "0 < n \<Longrightarrow> gen_row g n (ListV []) = Inl IndexError"
  by (cases n) auto

lemma gen_rows_empty: "0 < n \<Longrightarrow> 0 < w \<Longrightarrow> gen_rows g n w (ListV []) = Inl IndexError"
  by (cases n) (auto simp: gen_row_empty)

section \<open>The cursor along a render pass\<close>

lemmas turtle_ops =
  issue_def win_setup_def hideturtle_def set_speed_def penup_def pendown_def goto_def
  color_def begin_fill_def end_fill_def forward_def right_def sleep_def win_bye_def sysexit_def

lemma quarter_heading:
  assumes "(h::int) mod 90 = 0"
  shows "h mod 360 = 0 \<or> h mod 360 = 90 \<or> h mod 360 = 180 \<or> h mod 360 = 270"
proof -
  from assms obtain k where k: "h = 90 * k" by (auto simp: mod_eq_0_iff_dvd)
  have "(90 * k) mod (90 * 4) = 90 * (k mod 4)" by (rule mult_mod_right [symmetric])
  then have m: "h mod 360 = 90 * (k mod 4)" using k by simp
  have "0 \<le> k mod 4" "k mod 4 < 4" by simp_all
  then have "k mod 4 = 0 \<or> k mod 4 = 1 \<or> k mod 4 = 2 \<or> k mod 4 = 3" by linarith
  with m show ?thesis by auto
qed

lemma turn_mod: "(h::int) mod 360 = v \<Longrightarrow> (h - 90) mod 360 = (v - 90) mod 360"
  by (metis mod_diff_left_eq)

lemma turn_dir:
  assumes "(h::int) mod 90 = 0"
  shows "dir_x ((h - 90) mod 360) = dir_y h \<and> dir_y ((h - 90) mod 360) = - dir_x h"
  using quarter_heading [OF assms]
  by (elim disjE) (simp_all add: dir_x_def dir_y_def turn_mod)

lemma turn_quarter: "(h::int) mod 90 = 0 \<Longrightarrow> ((h - 90) mod 360) mod 90 = 0"
proof -
  assume a: "h mod 90 = 0"
  have "((h - 90) mod 360) mod 90 = (h - 90) mod 90" by (simp add: mod_mod_cancel)
  also have "\<dots> = 0" using a by (simp add: mod_eq_0_iff_dvd)
  finally show ?thesis .
qed

lemma side_step:
  assumes "heading t mod 90 = 0"
  shows "xcor (right 90 (forward s t)) = xcor t + of_int s * dir_x (heading t)"
    and "ycor (right 90 (forward s t)) = ycor t + of_int s * dir_y (heading t)"
    and "dir_x (heading (right 90 (forward s t))) = dir_y (heading t)"
    and "dir_y (heading (right 90 (forward s t))) = - dir_x (heading t)"
    and "heading (right 90 (forward s t)) mod 90 = 0"
    and "heading (right 90 (forward s t)) = (heading t - 90) mod 360"
  using turn_dir [OF assms] turn_quarter [OF assms] by (simp_all add: turtle_ops)

lemma draw_square_4:
  "draw_square 4 s t =
     right 90 (forward s (right 90 (forward s (right 90 (forward s (right 90 (forward s t)))))))"
  by (simp add: eval_nat_numeral)

lemma draw_square_pos:
  assumes h: "heading t mod 90 = 0"
  shows "xcor (draw_square 4 s t) = xcor t \<and> ycor (draw_square 4 s t) = ycor t"
proof -
  let ?t1 = "right 90 (forward s t)"
  let ?t2 = "right 90 (forward s ?t1)"
  let ?t3 = "right 90 (forward s ?t2)"
  let ?t4 = "right 90 (forward s ?t3)"
  note s1 = side_step [OF h, of s]
  note s2 = side_step [OF s1(5), of s]
  note s3 = side_step [OF s2(5), of s]
  note s4 = side_step [OF s3(5), of s]
  have "xcor ?t4 = xcor t" 
    by (simp only: s4(1) s3(1) s2(1) s1(1) s3(3) s2(3) s2(4) s1(3) s1(4), simp?)
  moreover have "ycor ?t4 = ycor t"
    by (simp only: s4(2) s3(2) s2(2) s1(2) s3(4) s2(3) s2(4) s1(3) s1(4), simp?)
  ultimately show ?thesis by (simp only: draw_square_4) 
qed

lemma draw_square_heading: "heading (draw_square 4 s t) = heading t mod 360"
proof -
  have "heading (draw_square 4 s t) = (((((heading t - 90) mod 360 - 90) mod 360 - 90) mod 360) - 90) mod 360"
    by (simp add: draw_square_4 right_def forward_def issue_def)
  also have "\<dots> = (heading t - 90 - 90 - 90 - 90) mod 360"
    by (simp only: mod_diff_left_eq)
  also have "\<dots> = heading t mod 360" by simp
  finally show ?thesis .
qed

lemma issued_simps [simp]:
  "issued (forward d t) = issued t @ [Forward d]"
  "issued (right a t) = issued t @ [Right a]"
  "issued (pendown t) = issued t @ [PenDown]"
  "issued (penup t) = issued t @ [PenUp]"
  "issued (color c t) = issued t @ [Color c]"
  "issued (begin_fill t) = issued t @ [BeginFill]"
  "issued (end_fill t) = issued t @ [EndFill]"
  "issued (goto x y t) = issued t @ [Goto x y]"
  by (simp_all add: turtle_ops)

lemma draw_square_issued:
  "issued (draw_square 4 s t) = issued t @ [Forward s, Right 90, Forward s, Right 90, Forward s, Right 90, Forward s, Right 90]"
  by (simp add: draw_square_4)

lemma draw_square_pen:
  "isdown (draw_square n s t) = isdown t \<and> filling (draw_square n s t) = filling t
   \<and> pencolor (draw_square n s t) = pencolor t"
  by (induction n arbitrary: t) (simp_all add: turtle_ops)

lemma draw_item_issued: "issued (draw_item s c t) = issued t @ item_trace s c"
  by (simp add: draw_item_def item_trace_def draw_square_issued)


lemma draw_item_state:
  assumes h: "heading t mod 90 = 0"
  shows "xcor (draw_item s c t) = xcor t + of_int s * dir_x (heading t)"
    and "ycor (draw_item s c t) = ycor t + of_int s * dir_y (heading t)"
    and "heading (draw_item s c t) = heading t mod 360"
proof -
  let ?t0 = "begin_fill (color c (pendown t))"
  have h0: "heading ?t0 = heading t" "xcor ?t0 = xcor t" "ycor ?t0 = ycor t"
    by (simp_all add: turtle_ops)
  with h have q: "heading ?t0 mod 90 = 0" by simp
  note p = draw_square_pos [OF q, of s]
  note d = draw_square_heading [of s ?t0]
  show "xcor (draw_item s c t) = xcor t + of_int s * dir_x (heading t)"
    using p d h0 by (simp add: draw_item_def forward_def end_fill_def issue_def dir_x_def)
  show "ycor (draw_item s c t) = ycor t + of_int s * dir_y (heading t)"
    using p d h0 by (simp add: draw_item_def forward_def end_fill_def issue_def dir_y_def)
  show "heading (draw_item s c t) = heading t mod 360"
    using d h0 by (simp add: draw_item_def forward_def end_fill_def issue_def)
qed

lemma draw_item_pen: "isdown (draw_item s c t) \<and> \<not> filling (draw_item s c t) \<and> pencolor (draw_item s c t) = c"
  by (simp add: draw_item_def forward_def end_fill_def issue_def draw_square_pen)
     (simp add: turtle_ops)

lemma draw_items_issued:
  "issued (draw_items s row t) = issued t @ concat (map (item_trace s) row)"
  by (induction row arbitrary: t) (simp_all add: draw_item_issued)

lemma draw_items_state:
  assumes "heading t = 0"
  shows "xcor (draw_items s row t) = xcor t + of_int s * of_nat (length row)
     \<and> ycor (draw_items s row t) = ycor t \<and> heading (draw_items s row t) = 0"
  using assms
proof (induction row arbitrary: t)
  case Nil
  then show ?case by simp
next
  case (Cons c row)
  have q: "heading t mod 90 = 0" using Cons.prems by simp
  have h: "heading (draw_item s c t) = 0" using draw_item_state(3) [OF q] Cons.prems by simp
  from Cons.IH [OF h] draw_item_state(1,2) [OF q, of s c] Cons.prems
  show ?case by (simp add: dir_x_def dir_y_def algebra_simps)
qed

lemma start_new_line_state:
  "issued (start_new_line w s t) = issued t @ row_advance w s (ycor t)"
  "xcor (start_new_line w s t) = of_int (- w) / 2"
  "ycor (start_new_line w s t) = ycor t - of_int s"
  "heading (start_new_line w s t) = heading t"
  "\<not> isdown (start_new_line w s t)"
  by (simp_all add: start_new_line_def row_advance_def Let_def turtle_ops)

lemma draw_row_state:
  assumes "heading t = 0"
  shows "issued (draw_row w s row t) = issued t @ concat (map (item_trace s) row) @ row_advance w s (ycor t)"
    and "xcor (draw_row w s row t) = of_int (- w) / 2"
    and "ycor (draw_row w s row t) = ycor t - of_int s"
    and "heading (draw_row w s row t) = 0"
    and "\<not> isdown (draw_row w s row t)"
  using draw_items_state [OF assms, of s row]
  by (simp_all add: draw_row_def start_new_line_state draw_items_issued)

lemma draw_rows_state:
  assumes "heading t = 0"
  shows "issued (draw_rows w s rows t) = issued t @ rows_trace w s (ycor t) rows
     \<and> ycor (draw_rows w s rows t) = ycor t - of_int s * of_nat (length rows)
     \<and> heading (draw_rows w s rows t) = 0
     \<and> (rows \<noteq> [] \<longrightarrow> xcor (draw_rows w s rows t) = of_int (- w) / 2 \<and> \<not> isdown (draw_rows w s rows t))"
  using assms
proof (induction rows arbitrary: t)
  case Nil
  then show ?case by simp
next
  case (Cons row rows)
  note r = draw_row_state [OF Cons.prems, of w s row]
  from Cons.IH [OF r(4)] r show ?case
    by (cases rows) (simp_all add: algebra_simps)
qed

lemma initialise_state:
  "issued (initialise m t) = issued t @ initial_trace m"
  "xcor (initialise m t) = of_int (- width m) / 2"
  "ycor (initialise m t) = of_int (height m) / 2"
  "heading (initialise m t) = heading t"
  "\<not> isdown (initialise m t)"
  by (simp_all add: initialise_def initial_trace_def turtle_ops)

lemma finish_state:
  "issued (finish t) = issued t @ final_trace"
  "xcor (finish t) = xcor t" "ycor (finish t) = ycor t" "isdown (finish t) = isdown t"
  by (simp_all add: finish_def final_trace_def turtle_ops)

lemma draw_pattern_issued:
  assumes "heading t = 0"
  shows "issued (draw_pattern m t) =
     issued t @ initial_trace m
       @ rows_trace (width m) (side_length m) (of_int (height m) / 2) (pattern m) @ final_trace"
proof -
  have h: "heading (initialise m t) = 0" using assms by (simp add: initialise_state)
  from draw_rows_state [OF h, of "width m" "side_length m" "pattern m"]
  show ?thesis by (simp add: draw_pattern_def finish_state initialise_state)
qed

section \<open>Claims about pattern generation\<close>

lemma next_zero_rng: "next_rng zero_rng = zero_rng"
  by (simp add: next_rng_def zero_rng_def)

lemma true_div_nonneg:
  assumes "0 < a" "0 < b" "true_div (IntV a) (IntV b) = Inr q"
  shows "0 \<le> q"
proof -
  have "0 \<le> nearest_double a b" using assms(1,2) by (intro nearest_double_nonneg) simp_all
  with assms show ?thesis
    by (auto simp: int_true_div_def Let_def split: if_splits)
qed

lemma generate_small:
  assumes "0 \<le> w" "w < 2 ^ 52" "0 \<le> h" "h < 2 ^ 52" "0 < s"
  shows "generate g (IntV w) (IntV h) (IntV s) cs =
     gen_pattern g (py_round (of_int w / of_int s)) (py_round (of_int h / of_int s)) cs"
proof -
  obtain qw where w: "int_true_div w s = Inr qw" "py_round qw = py_round (of_int w / of_int s)"
    using int_true_div_small [OF assms(1,2,5)] by blast
  obtain qh where h: "int_true_div h s = Inr qh" "py_round qh = py_round (of_int h / of_int s)"
    using int_true_div_small [OF assms(3,4,5)] by blast
  show ?thesis by (simp add: generate_def w h)
qed

lemma py_round_pos_quotient: "0 < a \<Longrightarrow> 0 < b \<Longrightarrow> 0 \<le> py_round (of_int a / of_int b)"
  by (rule py_round_nonneg) simp

lemma generate_returns:
  assumes "0 < w" "w < 2 ^ 52" "0 < h" "h < 2 ^ 52" "0 < s" "cs \<noteq> []"
  shows "\<exists>p g'. generate g (IntV w) (IntV h) (IntV s) (ListV cs) = Inr (p, g')
     \<and> int (length p) = py_round (of_int h / of_int s)
     \<and> (\<forall>row \<in> set p. int (length row) = py_round (of_int w / of_int s))
     \<and> (\<forall>row \<in> set p. set row \<subseteq> set cs)"
proof -
  let ?r = "py_round (of_int h / of_int s)" and ?c = "py_round (of_int w / of_int s)"
  have r0: "0 \<le> ?r" and c0: "0 \<le> ?c"
    using assms by (simp_all add: py_round_pos_quotient)
  obtain p g' where g: "gen_rows g (nat ?r) (nat ?c) (ListV cs) = Inr (p, g')"
    using gen_rows_total [OF assms(6)] by blast
  have "generate g (IntV w) (IntV h) (IntV s) (ListV cs) = gen_pattern g ?c ?r (ListV cs)"
    using assms by (intro generate_small) simp_all
  then have gen: "generate g (IntV w) (IntV h) (IntV s) (ListV cs) = Inr (p, g')"
    using g by (simp add: gen_pattern_def)
  have len: "int (length p) = ?r" using gen_rows_length [OF g] r0 by simp
  have cols: "\<forall>row \<in> set p. int (length row) = ?c"
    using gen_rows_rect [OF g] c0 by simp
  have pal: "\<forall>row \<in> set p. set row \<subseteq> set cs"
    using gen_rows_set [OF g] by blast
  from gen len cols pal show ?thesis by blast
qed

text \<open>
  C1, as the code has it. For width, height and side length all greater than 0, a grid
  that generation returns has exactly \<open>round(height / side_length)\<close> rows, each of
  exactly \<open>round(width / side_length)\<close> cells, where the quotients are the float
  quotients and \<open>round\<close> takes the nearest integer, a tie going to the even one.
  Generation returns a grid whenever the palette is not empty and neither division raises.
  For width and height below \<open>2 ^ 52\<close> neither division raises, and rounding the float
  quotient gives the same integer as rounding the exact quotient.
\<close>

theorem generate_dimensions:
  assumes "0 < w" "0 < h" "0 < s"
  shows "(generate g (IntV w) (IntV h) (IntV s) cs = Inr (p, g') \<longrightarrow>
            (\<exists>qw qh. true_div (IntV w) (IntV s) = Inr qw \<and> true_div (IntV h) (IntV s) = Inr qh
               \<and> int (length p) = py_round qh
               \<and> (\<forall>row \<in> set p. int (length row) = py_round qw)
               \<and> \<bar>of_int (int (length p)) - qh\<bar> \<le> 1 / 2
               \<and> (\<bar>of_int (int (length p)) - qh\<bar> = 1 / 2 \<longrightarrow> even (length p))))
     \<and> (xs \<noteq> [] \<and> \<not> isl (true_div (IntV w) (IntV s)) \<and> \<not> isl (true_div (IntV h) (IntV s))
          \<longrightarrow> (\<exists>q g''. generate g (IntV w) (IntV h) (IntV s) (ListV xs) = Inr (q, g'')))
     \<and> (w < 2 ^ 52 \<and> h < 2 ^ 52 \<longrightarrow>
          \<not> isl (true_div (IntV w) (IntV s)) \<and> \<not> isl (true_div (IntV h) (IntV s))
          \<and> (generate g (IntV w) (IntV h) (IntV s) cs = Inr (p, g') \<longrightarrow>
                int (length p) = py_round (of_int h / of_int s)
              \<and> (\<forall>row \<in> set p. int (length row) = py_round (of_int w / of_int s))
              \<and> \<bar>of_int (int (length p)) - (of_int h / of_int s :: rat)\<bar> \<le> 1 / 2
              \<and> (\<bar>of_int (int (length p)) - (of_int h / of_int s :: rat)\<bar> = 1 / 2
                   \<longrightarrow> even (length p))))"
proof (intro conjI)
  show "generate g (IntV w) (IntV h) (IntV s) cs = Inr (p, g') \<longrightarrow>
            (\<exists>qw qh. true_div (IntV w) (IntV s) = Inr qw \<and> true_div (IntV h) (IntV s) = Inr qh
               \<and> int (length p) = py_round qh
               \<and> (\<forall>row \<in> set p. int (length row) = py_round qw)
               \<and> \<bar>of_int (int (length p)) - qh\<bar> \<le> 1 / 2
               \<and> (\<bar>of_int (int (length p)) - qh\<bar> = 1 / 2 \<longrightarrow> even (length p)))"
  proof
    assume a: "generate g (IntV w) (IntV h) (IntV s) cs = Inr (p, g')"
    then obtain qw qh where w: "true_div (IntV w) (IntV s) = Inr qw"
      and h: "true_div (IntV h) (IntV s) = Inr qh"
      and gp: "gen_pattern g (py_round qw) (py_round qh) cs = Inr (p, g')"
      by (auto simp: generate_def split: sum.splits)
    have "0 \<le> qw" "0 \<le> qh"
      using true_div_nonneg [OF assms(1,3) w] true_div_nonneg [OF assms(2,3) h] by simp_all
    then have r0: "0 \<le> py_round qh" and c0: "0 \<le> py_round qw" by (simp_all add: py_round_nonneg)
    from gp have g: "gen_rows g (nat (py_round qh)) (nat (py_round qw)) cs = Inr (p, g')"
      by (simp add: gen_pattern_def)
    have len: "int (length p) = py_round qh" using gen_rows_length [OF g] r0 by simp
    have cols: "\<forall>row \<in> set p. int (length row) = py_round qw"
      using gen_rows_rect [OF g] c0 by simp
    have near: "\<bar>of_int (int (length p)) - qh\<bar> \<le> 1 / 2"
      unfolding len by (rule py_round_near)
    have tie: "\<bar>of_int (int (length p)) - qh\<bar> = 1 / 2 \<longrightarrow> even (length p)"
    proof
      assume "\<bar>of_int (int (length p)) - qh\<bar> = 1 / 2"
      then have "even (py_round qh)" unfolding len by (rule py_round_tie)
      then show "even (length p)" using len by (metis even_of_nat)
    qed
    from w h len cols near tie show "\<exists>qw qh. true_div (IntV w) (IntV s) = Inr qw
               \<and> true_div (IntV h) (IntV s) = Inr qh
               \<and> int (length p) = py_round qh
               \<and> (\<forall>row \<in> set p. int (length row) = py_round qw)
               \<and> \<bar>of_int (int (length p)) - qh\<bar> \<le> 1 / 2
               \<and> (\<bar>of_int (int (length p)) - qh\<bar> = 1 / 2 \<longrightarrow> even (length p))"
      by blast
  qed
next
  show "xs \<noteq> [] \<and> \<not> isl (true_div (IntV w) (IntV s)) \<and> \<not> isl (true_div (IntV h) (IntV s))
          \<longrightarrow> (\<exists>q g''. generate g (IntV w) (IntV h) (IntV s) (ListV xs) = Inr (q, g''))"
  proof
    assume a: "xs \<noteq> [] \<and> \<not> isl (true_div (IntV w) (IntV s)) \<and> \<not> isl (true_div (IntV h) (IntV s))"
    then obtain qw qh where w: "true_div (IntV w) (IntV s) = Inr qw"
      and h: "true_div (IntV h) (IntV s) = Inr qh"
      by (metis sum.collapse(2))
    from a have "xs \<noteq> []" by simp
    from gen_rows_total [OF this, of g "nat (py_round qh)" "nat (py_round qw)"]
    show "\<exists>q g''. generate g (IntV w) (IntV h) (IntV s) (ListV xs) = Inr (q, g'')"
      using w h by (simp add: generate_def gen_pattern_def)
  qed
next
  show "w < 2 ^ 52 \<and> h < 2 ^ 52 \<longrightarrow>
          \<not> isl (true_div (IntV w) (IntV s)) \<and> \<not> isl (true_div (IntV h) (IntV s))
          \<and> (generate g (IntV w) (IntV h) (IntV s) cs = Inr (p, g') \<longrightarrow>
                int (length p) = py_round (of_int h / of_int s)
              \<and> (\<forall>row \<in> set p. int (length row) = py_round (of_int w / of_int s))
              \<and> \<bar>of_int (int (length p)) - (of_int h / of_int s :: rat)\<bar> \<le> 1 / 2
              \<and> (\<bar>of_int (int (length p)) - (of_int h / of_int s :: rat)\<bar> = 1 / 2
                   \<longrightarrow> even (length p)))"
  proof (intro impI conjI)
    assume b: "w < 2 ^ 52 \<and> h < 2 ^ 52"
    let ?r = "py_round (of_int h / of_int s)" and ?c = "py_round (of_int w / of_int s)"
    have r0: "0 \<le> ?r" and c0: "0 \<le> ?c"
      using assms by (simp_all add: py_round_pos_quotient)
    show "\<not> isl (true_div (IntV w) (IntV s))"
      using int_true_div_small [of w s] assms b by auto
    show "\<not> isl (true_div (IntV h) (IntV s))"
      using int_true_div_small [of h s] assms b by auto
    assume "generate g (IntV w) (IntV h) (IntV s) cs = Inr (p, g')"
    moreover have "generate g (IntV w) (IntV h) (IntV s) cs = gen_pattern g ?c ?r cs"
      using assms b by (intro generate_small) simp_all
    ultimately have g: "gen_rows g (nat ?r) (nat ?c) cs = Inr (p, g')"
      by (simp add: gen_pattern_def)
    show len: "int (length p) = ?r" using gen_rows_length [OF g] r0 by simp
    show "\<forall>row \<in> set p. int (length row) = ?c"
      using gen_rows_rect [OF g] c0 by simp
    show "\<bar>of_int (int (length p)) - (of_int h / of_int s :: rat)\<bar> \<le> 1 / 2"
      unfolding len by (rule py_round_near)
    assume "\<bar>of_int (int (length p)) - (of_int h / of_int s :: rat)\<bar> = 1 / 2"
    then have "even ?r" unfolding len by (rule py_round_tie)
    then show "even (length p)" using len by (metis even_of_nat)
  qed
qed

theorem generate_dimensions_witness:
  "(0::int) < 200 \<and> (0::int) < 100 \<and> (0::int) < 50 \<and> (200::int) < 2 ^ 52 \<and> (100::int) < 2 ^ 52
   \<and> [''#ff0000'', ''#00ff00''] \<noteq> []
   \<and> \<not> isl (true_div (IntV 200) (IntV 50)) \<and> \<not> isl (true_div (IntV 100) (IntV 50))
   \<and> \<not> isl (generate zero_rng (IntV 200) (IntV 100) (IntV 50) (ListV [''#ff0000'', ''#00ff00'']))
   \<and> length (fst (projr (generate zero_rng (IntV 200) (IntV 100) (IntV 50)
        (ListV [''#ff0000'', ''#00ff00''])))) = 2"
proof -
  let ?cs = "[''#ff0000'', ''#00ff00'']"
  have pos: "(0::int) < 200" "(0::int) < 100" "(0::int) < 50" by simp_all
  have bnd: "(200::int) < 2 ^ 52 \<and> (100::int) < 2 ^ 52" by simp
  note T = generate_dimensions [OF pos, where g = zero_rng and cs = "ListV ?cs" and xs = ?cs]
  from T [of "[]" zero_rng] bnd
  have d: "\<not> isl (true_div (IntV 200) (IntV 50))" "\<not> isl (true_div (IntV 100) (IntV 50))"
    by blast+
  with T [of "[]" zero_rng]
  have "\<exists>q g''. generate zero_rng (IntV 200) (IntV 100) (IntV 50) (ListV ?cs) = Inr (q, g'')"
    by blast
  then obtain p g' where
    g: "generate zero_rng (IntV 200) (IntV 100) (IntV 50) (ListV ?cs) = Inr (p, g')"
    by blast
  from T [of p g'] bnd g
  have l: "int (length p) = py_round (of_int 100 / of_int 50)" by blast
  have "py_round (of_int 100 / of_int 50) = 2" by (simp add: py_round_def)
  with l have "length p = 2" by simp
  with g d show ?thesis by simp
qed

text \<open>
  C1 as stated fails beyond the range of the floats: for width \<open>2 ^ 1024\<close> and side
  length 1 the division raises OverflowError, and no grid is produced.
\<close>

theorem huge_width_counterexample:
  "(0::int) < 2 ^ 1024 \<and> (0::int) < 1
   \<and> generate zero_rng (IntV (2 ^ 1024)) (IntV 1) (IntV 1) (ListV [''#ff0000'', ''#00ff00''])
       = Inl OverflowError"
proof -
  have o: "int_true_div (2 ^ 1024) 1 = Inl OverflowError"
    by (rule int_true_div_overflow) simp
  have "generate zero_rng (IntV (2 ^ 1024)) (IntV 1) (IntV 1) (ListV [''#ff0000'', ''#00ff00''])
       = Inl OverflowError"
    unfolding generate_def true_div.simps o by simp
  then show ?thesis by simp
qed

lemma gen_pattern_two_cells:
  "gen_pattern zero_rng 2 1 (ListV [''#ff0000'', ''#00ff00''])
     = Inr ([[''#ff0000'', ''#ff0000'']], zero_rng)"
  by (simp add: gen_pattern_def eval_nat_numeral next_zero_rng) (simp add: zero_rng_def)

text \<open>
  C2. Every cell of a grid that generation returns for a palette holds a colour of that
  palette.
\<close>

theorem gen_pattern_palette:
  "gen_pattern g w h (ListV cs) = Inr (p, g') \<Longrightarrow> \<forall>row \<in> set p. \<forall>c \<in> set row. c \<in> set cs"
  unfolding gen_pattern_def using gen_rows_set by blast

theorem gen_pattern_palette_witness:
  "gen_pattern zero_rng 2 1 (ListV [''#ff0000'', ''#00ff00''])
     = Inr ([[''#ff0000'', ''#ff0000'']], zero_rng)
   \<and> set [''#ff0000'', ''#ff0000''] \<subseteq> set [''#ff0000'', ''#00ff00'']"
  using gen_pattern_palette [OF gen_pattern_two_cells] gen_pattern_two_cells by simp

text \<open>
  C9. With an empty palette generation raises IndexError exactly when both dimensions are
  positive (the first \<^verbatim>\<open>choice\<close> is then applied to the empty list); with a palette
  that is not empty it always returns a grid.
\<close>

theorem gen_pattern_empty_palette:
  "(gen_pattern g w h (ListV []) = Inl IndexError \<longleftrightarrow> 0 < w \<and> 0 < h)
   \<and> (cs \<noteq> [] \<longrightarrow> (\<exists>p g'. gen_pattern g w h (ListV cs) = Inr (p, g')))"
proof (intro conjI impI)
  show "gen_pattern g w h (ListV []) = Inl IndexError \<longleftrightarrow> 0 < w \<and> 0 < h"
  proof (cases "0 < w \<and> 0 < h")
    case True
    then show ?thesis by (simp add: gen_pattern_def gen_rows_empty)
  next
    case False
    then have z: "nat h = 0 \<or> nat w = 0" by auto
    have "\<exists>p g'. gen_rows g n 0 (ListV []) = Inr (p, g')" for n g
      by (induction n) auto
    with z have "\<exists>p g'. gen_pattern g w h (ListV []) = Inr (p, g')"
      by (auto simp: gen_pattern_def)
    with False show ?thesis by auto
  qed
next
  assume "cs \<noteq> []"
  then show "\<exists>p g'. gen_pattern g w h (ListV cs) = Inr (p, g')"
    unfolding gen_pattern_def by (rule gen_rows_total)
qed

theorem gen_pattern_empty_palette_witness:
  "(0::int) < 3 \<and> (0::int) < 2 \<and> gen_pattern zero_rng 3 2 (ListV []) = Inl IndexError
   \<and> [''#abc''] \<noteq> [] \<and> (\<exists>p g'. gen_pattern zero_rng 3 2 (ListV [''#abc'']) = Inr (p, g'))"
  using gen_pattern_empty_palette [of zero_rng 3 2 "[''#abc'']"] by simp

lemma gen_pattern_six_cells:
  "gen_pattern zero_rng 3 2 (ListV [''#abc''])
     = Inr ([[''#abc'', ''#abc'', ''#abc''], [''#abc'', ''#abc'', ''#abc'']], zero_rng)"
  by (simp add: gen_pattern_def eval_nat_numeral next_zero_rng)

text \<open>
  C10. A grid that generation returns is rectangular: it has as many rows as the height
  argument says and every row has as many cells as the width argument says.
\<close>

theorem gen_pattern_rectangular:
  "gen_pattern g w h cs = Inr (p, g') \<Longrightarrow>
     length p = nat h \<and> (\<forall>row \<in> set p. length row = nat w)"
  unfolding gen_pattern_def using gen_rows_length gen_rows_rect by blast

theorem gen_pattern_rectangular_witness:
  "gen_pattern zero_rng 3 2 (ListV [''#abc''])
     = Inr ([[''#abc'', ''#abc'', ''#abc''], [''#abc'', ''#abc'', ''#abc'']], zero_rng)
   \<and> length [[''#abc'', ''#abc'', ''#abc''], [''#abc'', ''#abc'', ''#abc'']] = nat 2
   \<and> length [''#abc'', ''#abc'', ''#abc''] = nat 3"
  using gen_pattern_rectangular [OF gen_pattern_six_cells] gen_pattern_six_cells by simp

section \<open>Claims about rendering\<close>

lemma rows_trace_empty_grid:
  "empty_grid p \<Longrightarrow> rows_trace w s y p = advances w s y (length p)"
  by (induction p arbitrary: y) (simp_all add: empty_grid_def)






text \<open>
  C7. For a cell, the renderer lowers the pen, sets the colour and begins the fill; it then
  issues four times "forward by the side length, turn right by 90 degrees", which brings
  the cursor back to the point where the cell started, pen down and fill open; it ends the
  fill and moves forward by the side length, which leaves the cursor one side length
  further along its heading, the heading being the one it started with.
\<close>

theorem draw_item_square:
  assumes "heading t mod 90 = 0"
  shows "issued (draw_item s c t) = issued t @ item_trace s c
     \<and> xcor (draw_square 4 s (begin_fill (color c (pendown t)))) = xcor t
     \<and> ycor (draw_square 4 s (begin_fill (color c (pendown t)))) = ycor t
     \<and> isdown (draw_square 4 s (begin_fill (color c (pendown t))))
     \<and> filling (draw_square 4 s (begin_fill (color c (pendown t))))
     \<and> draw_item s c t = forward s (end_fill (draw_square 4 s (begin_fill (color c (pendown t)))))
     \<and> \<not> filling (draw_item s c t)
     \<and> xcor (draw_item s c t) = xcor t + of_int s * dir_x (heading t)
     \<and> ycor (draw_item s c t) = ycor t + of_int s * dir_y (heading t)
     \<and> heading (draw_item s c t) = heading t mod 360"
proof -
  let ?t0 = "begin_fill (color c (pendown t))"
  have h0: "heading ?t0 mod 90 = 0" using assms by (simp add: turtle_ops)
  have p0: "xcor ?t0 = xcor t" "ycor ?t0 = ycor t" by (simp_all add: turtle_ops)
  have pen: "isdown ?t0" "filling ?t0" by (simp_all add: turtle_ops)
  from draw_square_pos [OF h0, of s] p0
  have sq: "xcor (draw_square 4 s ?t0) = xcor t" "ycor (draw_square 4 s ?t0) = ycor t"
    by simp_all
  from draw_square_pen [of 4 s ?t0] pen
  have dn: "isdown (draw_square 4 s ?t0)" "filling (draw_square 4 s ?t0)" by simp_all
  have df: "draw_item s c t = forward s (end_fill (draw_square 4 s ?t0))"
    by (simp only: draw_item_def)
  from draw_item_issued [of s c t] sq dn df draw_item_pen [of s c t] draw_item_state [OF assms, of s c]
  show ?thesis by blast
qed

theorem draw_item_square_witness:
  "heading new_turtle mod 90 = 0
   \<and> issued (draw_item 50 ''#ff0000'' new_turtle) =
       [PenDown, Color ''#ff0000'', BeginFill,
        Forward 50, Right 90, Forward 50, Right 90, Forward 50, Right 90, Forward 50, Right 90,
        EndFill, Forward 50]
   \<and> xcor (draw_square 4 50 (begin_fill (color ''#ff0000'' (pendown new_turtle)))) = 0
   \<and> ycor (draw_square 4 50 (begin_fill (color ''#ff0000'' (pendown new_turtle)))) = 0
   \<and> xcor (draw_item 50 ''#ff0000'' new_turtle) = 50
   \<and> ycor (draw_item 50 ''#ff0000'' new_turtle) = 0"
proof -
  let ?t0 = "begin_fill (color ''#ff0000'' (pendown new_turtle))"
  have h: "heading new_turtle mod 90 = 0" by (simp add: new_turtle_def)
  note T = draw_item_square [OF h, of 50 "''#ff0000''"]
  have n: "issued new_turtle = []" "xcor new_turtle = 0" "ycor new_turtle = 0"
    "dir_x (heading new_turtle) = 1" "dir_y (heading new_turtle) = 0"
    by (simp_all add: new_turtle_def dir_x_def dir_y_def)
  from T have "issued (draw_item 50 ''#ff0000'' new_turtle) = issued new_turtle @ item_trace 50 ''#ff0000''"
    by blast
  then have a: "issued (draw_item 50 ''#ff0000'' new_turtle) =
       [PenDown, Color ''#ff0000'', BeginFill,
        Forward 50, Right 90, Forward 50, Right 90, Forward 50, Right 90, Forward 50, Right 90,
        EndFill, Forward 50]"
    by (simp add: n item_trace_def)
  from T have "xcor (draw_square 4 50 ?t0) = xcor new_turtle" "ycor (draw_square 4 50 ?t0) = ycor new_turtle"
    by blast+
  then have b: "xcor (draw_square 4 50 ?t0) = 0" "ycor (draw_square 4 50 ?t0) = 0"
    by (simp_all add: n)
  from T have "xcor (draw_item 50 ''#ff0000'' new_turtle) = xcor new_turtle + of_int 50 * dir_x (heading new_turtle)"
    "ycor (draw_item 50 ''#ff0000'' new_turtle) = ycor new_turtle + of_int 50 * dir_y (heading new_turtle)"
    by blast+
  then have c: "xcor (draw_item 50 ''#ff0000'' new_turtle) = 50" "ycor (draw_item 50 ''#ff0000'' new_turtle) = 0"
    by (simp_all add: n)
  from h a b c show ?thesis by blast
qed


lemma count_begin_fill_row:
  "length (filter (\<lambda>c. c = BeginFill) (concat (map (item_trace s) row))) = length row"
  by (induction row) (simp_all add: item_trace_def)

lemma count_pen_up_row:
  "length (filter (\<lambda>c. c = PenUp) (concat (map (item_trace s) row))) = 0"
  by (induction row) (simp_all add: item_trace_def)

lemma count_begin_fill_rows:
  "length (filter (\<lambda>c. c = BeginFill) (rows_trace w s y p)) = sum_list (map length p)"
  by (induction p arbitrary: y) (simp_all add: count_begin_fill_row row_advance_def)

lemma count_pen_up_rows:
  "length (filter (\<lambda>c. c = PenUp) (rows_trace w s y p)) = length p"
  by (induction p arbitrary: y) (simp_all add: count_pen_up_row row_advance_def)

lemma check_valid_file_example:
  "(\<forall>k \<in> set NECESSARY_KEYS. d k \<noteq> None) \<Longrightarrow> check_valid_file (example_env alt_file (Inr d)) alt_file = Inr True"
  by (simp add: check_valid_file_def example_env_def NECESSARY_KEYS_def load_config_def)

lemma example_dict_keys: "\<forall>k \<in> set NECESSARY_KEYS. example_dict w h s cs k \<noteq> None"
  by (simp add: NECESSARY_KEYS_def example_dict_def)

lemma config_example:
  "config (example_env alt_file (Inr (example_dict w h s cs))) dflt g alt_file =
     (case generate g (IntV w) (IntV h) (IntV s) (ListV cs) of
        Inl e \<Rightarrow> Inl e
      | Inr (p, g') \<Rightarrow>
          Inr (\<lparr>previous_drawing = [], config_contents = example_dict w h s cs, speed = IntV 0,
                width = w, height = h, side_length = s, colours = ListV cs, pattern = p\<rparr>, g'))"
proof -
  have l: "load_config (example_env alt_file (Inr (example_dict w h s cs))) alt_file = Inr (example_dict w h s cs)"
    by (simp add: load_config_def example_env_def)
  have k: "lookup_key (example_dict w h s cs) dflt ''speed'' = Inr (IntV 0)"
    "lookup_key (example_dict w h s cs) dflt ''width'' = Inr (IntV w)"
    "lookup_key (example_dict w h s cs) dflt ''height'' = Inr (IntV h)"
    "lookup_key (example_dict w h s cs) dflt ''side_length'' = Inr (IntV s)"
    "lookup_key (example_dict w h s cs) dflt ''colours'' = Inr (ListV cs)"
    by (simp_all add: lookup_key_def example_dict_def)
  show ?thesis
    by (simp add: config_def check_valid_file_example [OF example_dict_keys] l
        apply_contents_def k split: sum.splits prod.splits)
qed

text \<open>
  C8. A configuration file with width 200, height 100, side length 50 and the colours
  \<open>#ff0000\<close> and \<open>#00ff00\<close> gives, for every random source, a grid of 2 rows of 4
  cells, each one of the two colours. Rendering it issues the positioning, the four
  square-draw sequences of the first row, a row advance to \<open>(-100, 0)\<close>, the four of
  the second row, a row advance to \<open>(-100, -50)\<close> and the tear-down: 8 square-draw
  sequences and 2 row advances (the third pen-up is the one of the positioning).
\<close>

theorem scenario_200_100_50:
  "\<exists>m g'. config (example_env alt_file (Inr (example_dict 200 100 50 [''#ff0000'', ''#00ff00''])))
            default_dict g alt_file = Inr (m, g')
     \<and> length (pattern m) = 2
     \<and> (\<forall>row \<in> set (pattern m). length row = 4 \<and> set row \<subseteq> {''#ff0000'', ''#00ff00''})
     \<and> issued (draw_pattern m new_turtle) =
         [WinSetup 200 100, HideTurtle, Speed (IntV 0), PenUp, Goto (- 100) 50]
         @ concat (map (item_trace 50) (pattern m ! 0)) @ [PenUp, Goto (- 100) 0]
         @ concat (map (item_trace 50) (pattern m ! 1)) @ [PenUp, Goto (- 100) (- 50)]
         @ [Sleep 10, WinBye, SysExit]
     \<and> length (filter (\<lambda>c. c = BeginFill) (issued (draw_pattern m new_turtle))) = 8
     \<and> length (filter (\<lambda>c. c = PenUp) (issued (draw_pattern m new_turtle))) = 3"
proof -
  let ?cs = "[''#ff0000'', ''#00ff00'']"
  obtain p g' where
    g: "generate g (IntV 200) (IntV 100) (IntV 50) (ListV ?cs) = Inr (p, g')"
    and r: "int (length p) = py_round (of_int 100 / of_int 50)"
    and c: "\<forall>row \<in> set p. int (length row) = py_round (of_int 200 / of_int 50)"
    and pal: "\<forall>row \<in> set p. set row \<subseteq> set ?cs"
    using generate_returns [of 200 100 50 ?cs g] by auto
  have "py_round (of_int 100 / of_int 50) = 2" "py_round (of_int 200 / of_int 50) = 4"
    by (simp_all add: py_round_def)
  with r c have len: "length p = 2" and cols: "\<forall>row \<in> set p. length row = 4" by simp_all
  from len obtain r0 r1 where p: "p = [r0, r1]"
    by (auto simp: length_Suc_conv eval_nat_numeral)
  define m where "m = \<lparr>previous_drawing = [], config_contents = example_dict 200 100 50 ?cs,
      speed = IntV 0, width = 200, height = 100, side_length = 50, colours = ListV ?cs,
      pattern = p\<rparr>"
  have cf: "config (example_env alt_file (Inr (example_dict 200 100 50 ?cs))) default_dict g alt_file
      = Inr (m, g')"
    by (simp add: config_example g m_def)
  have f: "pattern m = p" "width m = 200" "height m = 100" "side_length m = 50" "speed m = IntV 0"
    by (simp_all add: m_def)
  have h: "heading new_turtle = 0" "issued new_turtle = []" by (simp_all add: new_turtle_def)
  have tr: "issued (draw_pattern m new_turtle) =
         [WinSetup 200 100, HideTurtle, Speed (IntV 0), PenUp, Goto (- 100) 50]
         @ concat (map (item_trace 50) (pattern m ! 0)) @ [PenUp, Goto (- 100) 0]
         @ concat (map (item_trace 50) (pattern m ! 1)) @ [PenUp, Goto (- 100) (- 50)]
         @ [Sleep 10, WinBye, SysExit]"
    using draw_pattern_issued [OF h(1), of m]
    by (simp add: f h(2) p initial_trace_def final_trace_def row_advance_def)
  have l0: "length r0 = 4" "length r1 = 4" using cols p by simp_all
  have bf: "length (filter (\<lambda>c. c = BeginFill) (issued (draw_pattern m new_turtle))) = 8"
    unfolding tr by (simp add: f p count_begin_fill_row l0)
  have pu: "length (filter (\<lambda>c. c = PenUp) (issued (draw_pattern m new_turtle))) = 3"
    unfolding tr by (simp add: f p count_pen_up_row)
  from cf len cols pal tr bf pu f(1) show ?thesis by auto
qed

theorem scenario_200_100_50_witness:
  "length (pattern (fst (projr (config
      (example_env alt_file (Inr (example_dict 200 100 50 [''#ff0000'', ''#00ff00''])))
      default_dict zero_rng alt_file)))) = 2
   \<and> length (filter (\<lambda>c. c = BeginFill) (issued (draw_pattern (fst (projr (config
      (example_env alt_file (Inr (example_dict 200 100 50 [''#ff0000'', ''#00ff00''])))
      default_dict zero_rng alt_file))) new_turtle))) = 8
   \<and> length (filter (\<lambda>c. c = PenUp) (issued (draw_pattern (fst (projr (config
      (example_env alt_file (Inr (example_dict 200 100 50 [''#ff0000'', ''#00ff00''])))
      default_dict zero_rng alt_file))) new_turtle))) = 3"
proof -
  obtain m g' where
    "config (example_env alt_file (Inr (example_dict 200 100 50 [''#ff0000'', ''#00ff00''])))
       default_dict zero_rng alt_file = Inr (m, g')"
    "length (pattern m) = 2"
    "length (filter (\<lambda>c. c = BeginFill) (issued (draw_pattern m new_turtle))) = 8"
    "length (filter (\<lambda>c. c = PenUp) (issued (draw_pattern m new_turtle))) = 3"
    using scenario_200_100_50 [of zero_rng] by blast
  then show ?thesis by simp
qed

section \<open>Claims about validation\<close>

lemma check_keys_present:
  "load_config e f = Inr d \<Longrightarrow> list_all (\<lambda>k. d k \<noteq> None) ks \<Longrightarrow> check_keys e f ks = Inr True"
  by (induction ks) simp_all

lemma check_valid_file_true:
  assumes "path_is_file e f" "path_suffix e f = ''.json''" "read_json e f = Inr d"
    "list_all (\<lambda>k. d k \<noteq> None) NECESSARY_KEYS"
  shows "check_valid_file e f = Inr True"
  using assms by (simp add: check_valid_file_def check_keys_present load_config_def)

lemma config_valid:
  assumes "path_is_file e f" "path_suffix e f = ''.json''" "read_json e f = Inr d"
    "list_all (\<lambda>k. d k \<noteq> None) NECESSARY_KEYS"
  shows "config e dflt g f = apply_contents dflt g d"
  using check_valid_file_true [OF assms] assms(3) by (simp add: config_def load_config_def)

lemma config_load_error:
  assumes "path_is_file e f" "path_suffix e f = ''.json''" "read_json e f = Inl err"
  shows "check_valid_file e f = Inl err" "config e dflt g f = Inl err"
proof -
  show c: "check_valid_file e f = Inl err"
    using assms by (simp add: check_valid_file_def NECESSARY_KEYS_def load_config_def)
  show "config e dflt g f = Inl err" by (simp add: config_def c)
qed

lemma apply_contents_colours:
  "apply_contents dflt g d = Inr (m, g') \<Longrightarrow> d ''colours'' = Some v \<Longrightarrow> colours m = v"
  by (auto simp: apply_contents_def lookup_key_def
      split: sum.splits prod.splits cfg_value.splits option.splits)

lemma apply_contents_contents:
  "apply_contents dflt g d = Inr (m, g') \<Longrightarrow> config_contents m = d"
  by (auto simp: apply_contents_def split: sum.splits prod.splits cfg_value.splits)

lemma example_env_facts:
  "path_is_file (example_env n c) n" "path_suffix (example_env n c) n = ''.json''"
  "read_json (example_env n c) n = c"
  by (simp_all add: example_env_def)

lemma example_keys: "list_all (\<lambda>k. example_dict w h s cs k \<noteq> None) NECESSARY_KEYS"
  by (simp add: NECESSARY_KEYS_def example_dict_def)




lemma generate_one_colour:
  "\<exists>p g'. generate zero_rng (IntV 200) (IntV 100) (IntV 50) (ListV [''#abc'']) = Inr (p, g')"
  using generate_returns [of 200 100 50 "[''#abc'']" zero_rng] by auto

lemma config_one_colour:
  "\<exists>m g'. config (example_env alt_file (Inr (example_dict 200 100 50 [''#abc''])))
      default_dict zero_rng alt_file = Inr (m, g')"
  using generate_one_colour by (auto simp: config_example)

text \<open>
  C5, as the code has it. The check of a configuration file does not look at the colours:
  a file that has the five keys passes it also when its colour list has fewer than two
  entries or an entry that is no hex code, and the list becomes the palette as it is.
\<close>

theorem validation_ignores_colours:
  assumes "path_is_file e f" "path_suffix e f = ''.json''" "read_json e f = Inr d"
    "list_all (\<lambda>k. d k \<noteq> None) NECESSARY_KEYS"
    "d ''colours'' = Some (ListV cs)"
    "length cs < 2 \<or> \<not> list_all matches_hex_code cs"
  shows "check_valid_file e f = Inr True
     \<and> config e dflt g f = apply_contents dflt g d
     \<and> (config e dflt g f = Inr (m, g') \<longrightarrow> colours m = ListV cs)"
proof -
  have v: "check_valid_file e f = Inr True" by (rule check_valid_file_true [OF assms(1-4)])
  have c: "config e dflt g f = apply_contents dflt g d" by (rule config_valid [OF assms(1-4)])
  have "colours m = ListV cs" if "config e dflt g f = Inr (m, g')"
    using that c apply_contents_colours [of dflt g d m g' "ListV cs"] assms(5) by simp
  with v c show ?thesis by blast
qed

theorem validation_ignores_colours_witness:
  "path_is_file (example_env alt_file (Inr (example_dict 200 100 50 [''#abc'']))) alt_file
   \<and> path_suffix (example_env alt_file (Inr (example_dict 200 100 50 [''#abc'']))) alt_file
        = ''.json''
   \<and> read_json (example_env alt_file (Inr (example_dict 200 100 50 [''#abc'']))) alt_file
        = Inr (example_dict 200 100 50 [''#abc''])
   \<and> list_all (\<lambda>k. example_dict 200 100 50 [''#abc''] k \<noteq> None) NECESSARY_KEYS
   \<and> example_dict 200 100 50 [''#abc''] ''colours'' = Some (ListV [''#abc''])
   \<and> length [''#abc''] < 2
   \<and> check_valid_file (example_env alt_file (Inr (example_dict 200 100 50 [''#abc''])))
        alt_file = Inr True
   \<and> \<not> isl (config (example_env alt_file (Inr (example_dict 200 100 50 [''#abc''])))
        default_dict zero_rng alt_file)
   \<and> colours (fst (projr (config (example_env alt_file (Inr (example_dict 200 100 50 [''#abc''])))
        default_dict zero_rng alt_file))) = ListV [''#abc'']"
proof -
  let ?d = "example_dict 200 100 50 [''#abc'']"
  let ?e = "example_env alt_file (Inr ?d)"
  have c: "?d ''colours'' = Some (ListV [''#abc''])" by (simp add: example_dict_def)
  have l: "length [''#abc''] < 2 \<or> \<not> list_all matches_hex_code [''#abc'']" by simp
  obtain m g' where r: "config ?e default_dict zero_rng alt_file = Inr (m, g')"
    using config_one_colour by blast
  from validation_ignores_colours
    [where dflt = default_dict and g = zero_rng and m = m and g' = g',
      OF example_env_facts(1) example_env_facts(2) example_env_facts(3) example_keys c l] r
  have "check_valid_file ?e alt_file = Inr True" "colours m = ListV [''#abc'']" by simp_all
  with r c show ?thesis using example_env_facts example_keys by simp
qed

text \<open>
  C5 as stated fails: the file with the single colour \<open>#abc\<close> passes the check and is
  applied with that palette, and so does a file with the colour \<open>red\<close>.
\<close>

theorem short_palette_counterexample:
  "length [''#abc''] < 2
   \<and> check_valid_file (example_env alt_file (Inr (example_dict 200 100 50 [''#abc''])))
        alt_file = Inr True
   \<and> \<not> isl (config (example_env alt_file (Inr (example_dict 200 100 50 [''#abc''])))
        default_dict zero_rng alt_file)
   \<and> colours (fst (projr (config (example_env alt_file (Inr (example_dict 200 100 50 [''#abc''])))
        default_dict zero_rng alt_file))) = ListV [''#abc'']
   \<and> \<not> matches_hex_code ''red''
   \<and> check_valid_file (example_env alt_file (Inr (example_dict 200 100 50 [''red'', ''#00ff00''])))
        alt_file = Inr True"
proof -
  let ?d = "example_dict 200 100 50 [''#abc'']"
  let ?e = "example_env alt_file (Inr ?d)"
  have c: "?d ''colours'' = Some (ListV [''#abc''])" by (simp add: example_dict_def)
  obtain m g' where r: "config ?e default_dict zero_rng alt_file = Inr (m, g')"
    using config_one_colour by blast
  have v: "check_valid_file ?e alt_file = Inr True"
    by (rule check_valid_file_true
        [OF example_env_facts(1) example_env_facts(2) example_env_facts(3) example_keys])
  have "config ?e default_dict zero_rng alt_file = apply_contents default_dict zero_rng ?d"
    by (rule config_valid
        [OF example_env_facts(1) example_env_facts(2) example_env_facts(3) example_keys])
  with r have "apply_contents default_dict zero_rng ?d = Inr (m, g')" by simp
  from apply_contents_colours [OF this c] have k: "colours m = ListV [''#abc'']" .
  have h: "\<not> matches_hex_code ''red''" by (simp add: matches_hex_code_def)
  have v2: "check_valid_file (example_env alt_file (Inr (example_dict 200 100 50 [''red'', ''#00ff00''])))
        alt_file = Inr True"
    by (rule check_valid_file_true
        [OF example_env_facts(1) example_env_facts(2) example_env_facts(3) example_keys])
  from v r k h v2 show ?thesis by simp
qed

lemma matches_hex_code_examples:
  "matches_hex_code ''#abc''" "matches_hex_code ''#00FF7f''" "\<not> matches_hex_code ''#abcd''"
  "\<not> matches_hex_code ''#ggg''" "\<not> matches_hex_code ''abc''"
  by (simp_all add: matches_hex_code_def hex_digit_def)

text \<open>
  C6. A file that exists, has the suffix \<^verbatim>\<open>.json\<close> and does not parse: the check
  raises the decoding error instead of returning false, and so does the configuration
  step; there is no fallback to the default configuration. A file that parses but lacks
  the keys is found invalid, and the default configuration is applied.
\<close>

theorem malformed_file_propagates:
  "check_valid_file (example_env alt_file (Inl JSONDecodeError)) alt_file = Inl JSONDecodeError
   \<and> config (example_env alt_file (Inl JSONDecodeError)) default_dict zero_rng alt_file
        = Inl JSONDecodeError
   \<and> check_valid_file (example_env alt_file (Inr Map.empty)) alt_file = Inr False
   \<and> config (example_env alt_file (Inr Map.empty)) default_dict zero_rng alt_file
        = apply_contents default_dict zero_rng default_dict"
proof -
  let ?e = "example_env alt_file (Inl JSONDecodeError)"
  have l: "check_valid_file ?e alt_file = Inl JSONDecodeError"
    "config ?e default_dict zero_rng alt_file = Inl JSONDecodeError"
    by (rule config_load_error [where err = JSONDecodeError]; simp add: example_env_facts)+
  have f: "check_valid_file (example_env alt_file (Inr Map.empty)) alt_file = Inr False"
    by (simp add: check_valid_file_def NECESSARY_KEYS_def load_config_def example_env_def)
  have d: "load_config (example_env alt_file (Inr Map.empty)) DEFAULT_CONFIG_FILE = Inr default_dict"
    by (simp add: load_config_def example_env_def DEFAULT_CONFIG_FILE_def alt_file_def)
  have c: "config (example_env alt_file (Inr Map.empty)) default_dict zero_rng alt_file
        = apply_contents default_dict zero_rng default_dict"
    by (simp add: config_def f d)
  from l f c show ?thesis by simp
qed

end
